theory Spec2Isabelle
  imports Complex_Main "HOL-Library.AList" "HOL-Library.Multiset" "HOL-Library.Product_Lexorder"
begin

section \<open>Strings, numbers and the pieces of the platform the code relies on\<close>

text \<open>
  A JavaScript string is modelled as the list of its code units; the model covers code
  units below 256 (\<^typ>\<open>char\<close>). \<open>String.prototype.toLowerCase\<close> on that range maps
  \<open>A..Z\<close> and the Latin-1 capitals \<open>U+00C0..U+00DE\<close> (without the multiplication sign
  \<open>U+00D7\<close>) to the letter 32 code units further on, and leaves everything else.
\<close>

definition toLowerChar :: "char \<Rightarrow> char" where
  "toLowerChar c =
     (let n = (of_char c :: nat)
      in if (65 \<le> n \<and> n \<le> 90) \<or> (192 \<le> n \<and> n \<le> 222 \<and> n \<noteq> 215)
         then char_of (n + 32) else c)"

definition toLowerCase :: "string \<Rightarrow> string" where
  "toLowerCase s = map toLowerChar s"

text \<open>\<open>s.startsWith(p)\<close>, and \<open>s.replace(/^p/, "")\<close> for a literal prefix \<open>p\<close>.\<close>

definition startsWith :: "string \<Rightarrow> string \<Rightarrow> bool" where
  "startsWith s p = (take (length p) s = p)"

definition stripPrefix :: "string \<Rightarrow> string \<Rightarrow> string" where
  "stripPrefix p s = (if startsWith s p then drop (length p) s else s)"

text \<open>\<open>s.replace(/\/+$/, "")\<close>: the whole run of slashes at the end of the string goes.\<close>

definition stripTrailingSlashes :: "string \<Rightarrow> string" where
  "stripTrailingSlashes s = rev (dropWhile (\<lambda>c. c = CHR ''/'') (rev s))"

text \<open>\<open>s.replace(/^https?:\/\//, "")\<close>.\<close>

definition stripHttpScheme :: "string \<Rightarrow> string" where
  "stripHttpScheme s =
     (if startsWith s ''http://'' then drop 7 s
      else if startsWith s ''https://'' then drop 8 s
      else s)"

text \<open>The decimal text of a non-negative integer, as a template literal prints it.\<close>

fun show_nat :: "nat \<Rightarrow> string" where
  "show_nat n =
     (if n < 10 then [''0123456789'' ! n]
      else show_nat (n div 10) @ [''0123456789'' ! (n mod 10)])"

declare show_nat.simps [simp del]

text \<open>\<open>Array.prototype.join\<close>.\<close>

fun join :: "string \<Rightarrow> string list \<Rightarrow> string" where
  "join sep [] = []"
| "join sep [x] = x"
| "join sep (x # y # ys) = x @ sep @ join sep (y # ys)"

text \<open>
  \<open>Array.prototype.slice(start, end)\<close> and \<open>String.prototype.slice\<close> on integer arguments:
  a negative index counts from the end, both ends are clamped to the length, and an
  empty range gives the empty list.
\<close>

definition slice_index :: "nat \<Rightarrow> int \<Rightarrow> nat" where
  "slice_index len k = (if k < 0 then nat (max (int len + k) 0) else min (nat k) len)"

definition slice :: "'a list \<Rightarrow> int \<Rightarrow> int \<Rightarrow> 'a list" where
  "slice xs start stop =
     (let i = slice_index (length xs) start; j = slice_index (length xs) stop
      in take (j - i) (drop i xs))"

subsection \<open>The URL constructor\<close>

text \<open>
  \<open>normalizeUrl\<close> reads two fields of \<open>new URL(url)\<close>, which throws on a string that is
  not an absolute URL. The constructor belongs to the platform, not to the repository, so
  the functions below take it as a parameter: a function from the string to the two
  fields, \<open>None\<close> where the constructor throws.
\<close>

record URL =
  hostname :: string
  pathname :: string

type_synonym url_parser = "string \<Rightarrow> URL option"

text \<open>
  For evaluation at concrete addresses, \<open>new_URL\<close> follows the parsing algorithm of the URL
  Standard on its most common fragment: the schemes http, https, ftp, ws and wss; an
  authority with optional credentials and port; a host of ASCII letters, digits,
  \<open>-\<close>, \<open>_\<close> and \<open>.\<close> whose last label is not a number and that has no \<open>xn--\<close> label; a
  path, query and fragment of printable ASCII in which nothing has to be
  percent-encoded. On that fragment it answers what the constructor answers
  (\<open>None\<close> where it throws: no scheme, empty host, bad port). Outside the fragment
  (other schemes, hosts that need IDNA, percent-decoding or IP-address
  canonicalisation, characters that the standard percent-encodes) it answers
  \<open>None\<close> as well and says nothing about the platform; it is used below only at
  addresses inside the fragment.
\<close>

definition ascii_alpha :: "char \<Rightarrow> bool" where
  "ascii_alpha c =
     (let n = (of_char c :: nat) in (65 \<le> n \<and> n \<le> 90) \<or> (97 \<le> n \<and> n \<le> 122))"

definition ascii_digit :: "char \<Rightarrow> bool" where
  "ascii_digit c = (let n = (of_char c :: nat) in 48 \<le> n \<and> n \<le> 57)"

definition ascii_hex_digit :: "char \<Rightarrow> bool" where
  "ascii_hex_digit c =
     (let n = (of_char c :: nat)
      in (48 \<le> n \<and> n \<le> 57) \<or> (65 \<le> n \<and> n \<le> 70) \<or> (97 \<le> n \<and> n \<le> 102))"

definition c0_or_space :: "char \<Rightarrow> bool" where
  "c0_or_space c = ((of_char c :: nat) \<le> 32)"

definition tab_or_newline :: "char \<Rightarrow> bool" where
  "tab_or_newline c = ((of_char c :: nat) \<in> {9, 10, 13})"

definition is_slash :: "char \<Rightarrow> bool" where
  "is_slash c = (c = CHR ''/'' \<or> c = CHR 0x5C)"

definition ends_authority :: "char \<Rightarrow> bool" where
  "ends_authority c = (is_slash c \<or> c = CHR ''?'' \<or> c = CHR ''#'')"

definition scheme_char :: "char \<Rightarrow> bool" where
  "scheme_char c =
     (ascii_alpha c \<or> ascii_digit c \<or> c = CHR ''+'' \<or> c = CHR ''-'' \<or> c = CHR ''.'')"

definition plain_host_char :: "char \<Rightarrow> bool" where
  "plain_host_char c =
     (ascii_alpha c \<or> ascii_digit c \<or> c = CHR ''-'' \<or> c = CHR ''_'' \<or> c = CHR ''.'')"

text \<open>Characters of a path, query or fragment that the standard copies unchanged.\<close>

definition plain_url_char :: "char \<Rightarrow> bool" where
  "plain_url_char c =
     (let n = (of_char c :: nat)
      in 33 \<le> n \<and> n \<le> 126 \<and> c \<notin> set ''\"<>^`{}'')"

fun split_on :: "(char \<Rightarrow> bool) \<Rightarrow> string \<Rightarrow> string list" where
  "split_on P [] = [[]]"
| "split_on P (c # cs) =
     (let r = split_on P cs in if P c then [] # r else (c # hd r) # tl r)"

text \<open>The scheme: a letter, then letters, digits, \<open>+\<close>, \<open>-\<close>, \<open>.\<close>, then a colon.\<close>

definition parse_scheme :: "string \<Rightarrow> (string \<times> string) option" where
  "parse_scheme s =
     (let name = takeWhile scheme_char s; rest = dropWhile scheme_char s
      in if name \<noteq> [] \<and> ascii_alpha (hd name) \<and> rest \<noteq> [] \<and> hd rest = CHR '':''
         then Some (map toLowerChar name, tl rest) else None)"

text \<open>The last label of the host is a decimal or hexadecimal number: an IPv4 address.\<close>

definition ends_in_a_number :: "string \<Rightarrow> bool" where
  "ends_in_a_number h =
     (let parts = split_on (\<lambda>c. c = CHR ''.'') h;
          parts' = (if last parts = [] \<and> length parts > 1 then butlast parts else parts);
          l = last parts'
      in (l \<noteq> [] \<and> list_all ascii_digit l) \<or>
         ((startsWith l ''0x'' \<or> startsWith l ''0X'') \<and> list_all ascii_hex_digit (drop 2 l)))"

definition parse_host :: "string \<Rightarrow> string option" where
  "parse_host h =
     (let a = map toLowerChar h
      in if h = [] \<or> \<not> list_all plain_host_char h \<or> ends_in_a_number a
            \<or> list_ex (\<lambda>l. startsWith l ''xn--'') (split_on (\<lambda>c. c = CHR ''.'') a)
         then None else Some a)"

fun decimal :: "string \<Rightarrow> nat" where
  "decimal s = foldl (\<lambda>n c. 10 * n + ((of_char c :: nat) - 48)) 0 s"

definition port_ok :: "string \<Rightarrow> bool" where
  "port_ok p = (list_all ascii_digit p \<and> decimal p \<le> 65535)"

definition is_single_dot :: "string \<Rightarrow> bool" where
  "is_single_dot s = (map toLowerChar s \<in> {''.'', ''%2e''})"

definition is_double_dot :: "string \<Rightarrow> bool" where
  "is_double_dot s = (map toLowerChar s \<in> {''..'', ''.%2e'', ''%2e.'', ''%2e%2e''})"

text \<open>
  The path state: a \<open>..\<close> segment removes the segment before it, a \<open>.\<close> segment is
  dropped, and either of them at the very end leaves an empty last segment.
\<close>

fun path_segments :: "string list \<Rightarrow> string list \<Rightarrow> string list" where
  "path_segments [] path = path"
| "path_segments (s # ss) path =
     (if is_double_dot s then path_segments ss (butlast path @ (if ss = [] then [[]] else []))
      else if is_single_dot s then path_segments ss (path @ (if ss = [] then [[]] else []))
      else path_segments ss (path @ [s]))"

definition parse_path :: "string \<Rightarrow> string" where
  "parse_path rest =
     (let p = takeWhile (\<lambda>c. c \<noteq> CHR ''?'' \<and> c \<noteq> CHR ''#'') rest;
          p' = (if p \<noteq> [] \<and> is_slash (hd p) then tl p else p)
      in concat (map (\<lambda>s. CHR ''/'' # s) (path_segments (split_on is_slash p') [])))"

definition new_URL :: url_parser where
  "new_URL input =
     (let trimmed = rev (dropWhile c0_or_space (rev (dropWhile c0_or_space input)));
          s = filter (\<lambda>c. \<not> tab_or_newline c) trimmed
      in case parse_scheme s of
           None \<Rightarrow> None
         | Some (scheme, after) \<Rightarrow>
             (if scheme \<notin> {''http'', ''https'', ''ftp'', ''ws'', ''wss''} then None
              else
                (let a = dropWhile is_slash after;
                     authority = takeWhile (\<lambda>c. \<not> ends_authority c) a;
                     rest = dropWhile (\<lambda>c. \<not> ends_authority c) a;
                     hostport = last (split_on (\<lambda>c. c = CHR ''@'') authority);
                     host = takeWhile (\<lambda>c. c \<noteq> CHR '':'') hostport;
                     port = dropWhile (\<lambda>c. c \<noteq> CHR '':'') hostport
                 in if \<not> list_all plain_url_char rest then None
                    else if port \<noteq> [] \<and> \<not> port_ok (tl port) then None
                    else (case parse_host host of
                            None \<Rightarrow> None
                          | Some h \<Rightarrow> Some \<lparr>hostname = h, pathname = parse_path rest\<rparr>))))"

section \<open>URL normalisation and merging (utils/dedup)\<close>

text \<open>The provider tags \<open>"exa" | "firecrawl" | "perplexity"\<close>.\<close>

datatype source = Exa | Firecrawl | Perplexity

text \<open>
  \<open>content?\<close>, \<open>publishedDate?\<close> and \<open>score?\<close> are optional fields: \<open>None\<close> is
  \<open>undefined\<close>. A score is a JavaScript number, that is an IEEE 754 double; the model
  covers the finite doubles, each as the real number it denotes (see \<open>number_add\<close>
  below for the arithmetic).
\<close>

record SearchResult =
  url :: string
  title :: string
  snippet :: string
  content :: "string option"
  publishedDate :: "string option"
  source :: source
  score :: "real option"

record MergedResult =
  url :: string
  normalizedUrl :: string
  title :: string
  snippet :: string
  content :: "string option"
  publishedDate :: "string option"
  sources :: "source list"
  relevanceScore :: real

text \<open>Truthiness of an optional string: defined and not empty.\<close>

fun truthy :: "string option \<Rightarrow> bool" where
  "truthy None = False"
| "truthy (Some s) = (s \<noteq> [])"

text \<open>
  \<open>normalizeUrl\<close>: host without a leading \<open>www.\<close> followed by the path without its
  trailing slashes, in lower case; where the constructor throws, the string transform of
  the \<open>catch\<close> branch.
\<close>

definition normalizeUrl :: "url_parser \<Rightarrow> string \<Rightarrow> string" where
  "normalizeUrl parse str =
     (case parse str of
        Some u \<Rightarrow>
          (let host = stripPrefix ''www.'' (hostname u);
               path = stripTrailingSlashes (pathname u)
           in toLowerCase (host @ path))
      | None \<Rightarrow>
          stripTrailingSlashes (stripPrefix ''www.'' (stripHttpScheme (toLowerCase str))))"

text \<open>
  The \<open>+\<close> of two JavaScript numbers is the exact sum rounded to the nearest double, a
  tie going to the double whose significand is even. A double has a significand of 53
  bits; \<open>binade x\<close> is the exponent \<open>e\<close> with \<open>2 powi e \<le> \<bar>x\<bar> < 2 powi (e + 1)\<close>, and
  never below \<open>- 1022\<close>, where the subnormal numbers begin; the doubles around \<open>x\<close> are the
  multiples of \<open>2 powi (binade x - 52)\<close>. NaN, the infinities, the sign of zero and sums
  beyond the largest finite double are outside the model.
\<close>

definition round_half_even :: "real \<Rightarrow> int" where
  "round_half_even x =
     (let n = \<lfloor>x\<rfloor>; d = x - of_int n
      in if d < 1 / 2 then n else if 1 / 2 < d then n + 1 else if even n then n else n + 1)"

fun binade_search :: "nat \<Rightarrow> real \<Rightarrow> int" where
  "binade_search 0 a = - 1022"
| "binade_search (Suc n) a =
     (if 2 powi (int (Suc n) - 1022) \<le> a then int (Suc n) - 1022 else binade_search n a)"

definition binade :: "real \<Rightarrow> int" where
  "binade x = binade_search 2045 \<bar>x\<bar>"

definition to_double :: "real \<Rightarrow> real" where
  "to_double x =
     (if x = 0 then 0
      else let ulp = 2 powi (binade x - 52) in ulp * of_int (round_half_even (x / ulp)))"

definition number_add :: "real \<Rightarrow> real \<Rightarrow> real" where
  "number_add x y = to_double (x + y)"

text \<open>
  The body of the loop of \<open>mergeResults\<close>. The \<open>Map\<close> is an association list in insertion
  order: \<open>map.get\<close> is \<open>map_of\<close>, \<open>map.set\<close> of a new key appends, and the in-place
  mutation of an entry that exists rewrites it where it stands.
\<close>

definition absorb :: "MergedResult \<Rightarrow> SearchResult \<Rightarrow> MergedResult" where
  "absorb existing r =
     (let e1 = (if source r \<notin> set (sources existing)
                then existing\<lparr>sources := sources existing @ [source r],
                               relevanceScore := number_add (relevanceScore existing) 1\<rparr>
                else existing);
          e2 = (if truthy (SearchResult.content r) \<and>
                   (\<not> truthy (MergedResult.content e1) \<or>
                    length (the (SearchResult.content r)) > length (the (MergedResult.content e1)))
                then e1\<lparr>MergedResult.content := SearchResult.content r\<rparr> else e1);
          e3 = (if SearchResult.snippet r \<noteq> [] \<and>
                   length (SearchResult.snippet r) > length (MergedResult.snippet e2)
                then e2\<lparr>MergedResult.snippet := SearchResult.snippet r\<rparr> else e2)
      in if \<not> truthy (MergedResult.publishedDate e3) \<and> truthy (SearchResult.publishedDate r)
         then e3\<lparr>MergedResult.publishedDate := SearchResult.publishedDate r\<rparr> else e3)"

definition fresh :: "string \<Rightarrow> SearchResult \<Rightarrow> MergedResult" where
  "fresh key r =
     \<lparr>MergedResult.url = SearchResult.url r,
      normalizedUrl = key,
      title = (if SearchResult.title r \<noteq> [] then SearchResult.title r else SearchResult.url r),
      snippet = SearchResult.snippet r,
      content = SearchResult.content r,
      publishedDate = SearchResult.publishedDate r,
      sources = [source r],
      relevanceScore = number_add 1 (case score r of None \<Rightarrow> 0 | Some s \<Rightarrow> s)\<rparr>"

definition mergeStep ::
  "url_parser \<Rightarrow> SearchResult \<Rightarrow> (string \<times> MergedResult) list \<Rightarrow> (string \<times> MergedResult) list"
where
  "mergeStep parse r m =
     (let key = normalizeUrl parse (SearchResult.url r)
      in case map_of m key of
           Some existing \<Rightarrow> AList.update key (absorb existing r) m
         | None \<Rightarrow> AList.update key (fresh key r) m)"

definition mergeResults :: "url_parser \<Rightarrow> SearchResult list \<Rightarrow> MergedResult list" where
  "mergeResults parse results = map snd (fold (mergeStep parse) results [])"

text \<open>The invariant of one entry of the map while \<open>mergeResults\<close> runs.\<close>

definition entry_ok :: "url_parser \<Rightarrow> string \<times> MergedResult \<Rightarrow> bool" where
  "entry_ok parse p =
     (distinct (sources (snd p)) \<and>
      normalizedUrl (snd p) = normalizeUrl parse (MergedResult.url (snd p)))"

section \<open>Ranking (utils/dedup)\<close>

text \<open>
  The comparator that \<open>rankByRelevance\<close> hands to \<open>Array.prototype.sort\<close>: the difference of
  the source counts when they differ, of the scores otherwise.
\<close>

definition compareRelevance :: "MergedResult \<Rightarrow> MergedResult \<Rightarrow> real" where
  "compareRelevance a b =
     (if length (sources b) \<noteq> length (sources a)
      then real_of_int (int (length (sources b)) - int (length (sources a)))
      else relevanceScore b - relevanceScore a)"

text \<open>
  \<open>Array.prototype.sort(comparefn)\<close>. The language specification requires the sort to be
  stable and, for a consistent comparator, to return the elements in the comparator's
  order; which algorithm runs is left open. The model is the stable insertion sort: an
  element goes in front of the first element behind it that it does not have to follow
  (\<open>comparefn(x, y) \<le> 0\<close>).
\<close>

fun sortInsert :: "('a \<Rightarrow> 'a \<Rightarrow> real) \<Rightarrow> 'a \<Rightarrow> 'a list \<Rightarrow> 'a list" where
  "sortInsert comparefn x [] = [x]"
| "sortInsert comparefn x (y # ys) =
     (if comparefn x y \<le> 0 then x # y # ys else y # sortInsert comparefn x ys)"

definition Array_sort :: "('a \<Rightarrow> 'a \<Rightarrow> real) \<Rightarrow> 'a list \<Rightarrow> 'a list" where
  "Array_sort comparefn xs = foldr (sortInsert comparefn) xs []"

definition rankByRelevance :: "MergedResult list \<Rightarrow> MergedResult list" where
  "rankByRelevance results = Array_sort compareRelevance results"

text \<open>The sort key that the comparator amounts to, in ascending lexicographic order.\<close>

definition rankKey :: "MergedResult \<Rightarrow> int \<times> real" where
  "rankKey r = (- int (length (sources r)), - relevanceScore r)"



section \<open>Promises\<close>

text \<open>
  What a provider throws or rejects with: an \<open>Error\<close> object with its message, or any
  other value, given by the text \<open>String(e)\<close> makes of it. \<open>reason_text\<close> is
  \<open>e instanceof Error ? e.message : String(e)\<close>.
\<close>

datatype reason = Error string | Thrown string

fun reason_text :: "reason \<Rightarrow> string" where
  "reason_text (Error message) = message"
| "reason_text (Thrown s) = s"

text \<open>
  A promise is modelled by how it settles: fulfilled with a value or rejected with a
  reason, at a time in milliseconds counted from the moment the promise was made, or
  never. There is one thread: what runs at an earlier time runs first, and of two
  things due at the same time the one set up first.
\<close>

datatype 'a promise = Resolves nat 'a | Rejects nat reason | Pending

fun settles_at :: "'a promise \<Rightarrow> nat option" where
  "settles_at (Resolves t v) = Some t"
| "settles_at (Rejects t e) = Some t"
| "settles_at Pending = None"

text \<open>\<open>Promise.race([p, q])\<close>: the one that settles first.\<close>

definition race :: "'a promise \<Rightarrow> 'a promise \<Rightarrow> 'a promise" where
  "race p q =
     (case (settles_at p, settles_at q) of
        (None, _) \<Rightarrow> q
      | (Some s, None) \<Rightarrow> p
      | (Some s, Some t) \<Rightarrow> if s \<le> t then p else q)"

text \<open>
  \<open>Promise.all\<close> of two promises, and of a list: fulfilled when all are, with the values
  in the order of the promises; rejected as soon as one is rejected.
\<close>

fun both :: "'a promise \<Rightarrow> 'b promise \<Rightarrow> ('a \<times> 'b) promise" where
  "both (Resolves s a) (Resolves t b) = Resolves (max s t) (a, b)"
| "both (Rejects s e) (Rejects t f) = (if s \<le> t then Rejects s e else Rejects t f)"
| "both (Rejects s e) _ = Rejects s e"
| "both _ (Rejects t f) = Rejects t f"
| "both _ _ = Pending"

fun promise_map :: "('a \<Rightarrow> 'b) \<Rightarrow> 'a promise \<Rightarrow> 'b promise" where
  "promise_map g (Resolves t v) = Resolves t (g v)"
| "promise_map g (Rejects t e) = Rejects t e"
| "promise_map g Pending = Pending"

fun Promise_all :: "'a promise list \<Rightarrow> 'a list promise" where
  "Promise_all [] = Resolves 0 []"
| "Promise_all (p # ps) = promise_map (\<lambda>(v, vs). v # vs) (both p (Promise_all ps))"

text \<open>
  \<open>p.catch(() => fallback)\<close>, and \<open>await p\<close> followed by the rest of an async function:
  the rest starts when \<open>p\<close> is fulfilled, a rejection leaves the function as its own
  rejection, and a promise that never settles is never left.
\<close>

fun catch_value :: "'a promise \<Rightarrow> (reason \<Rightarrow> 'a) \<Rightarrow> 'a promise" where
  "catch_value (Resolves t v) h = Resolves t v"
| "catch_value (Rejects t e) h = Resolves t (h e)"
| "catch_value Pending h = Pending"

fun later :: "nat \<Rightarrow> 'a promise \<Rightarrow> 'a promise" where
  "later d (Resolves t v) = Resolves (d + t) v"
| "later d (Rejects t e) = Rejects (d + t) e"
| "later d Pending = Pending"

fun await :: "'a promise \<Rightarrow> ('a \<Rightarrow> 'b promise) \<Rightarrow> 'b promise" where
  "await (Resolves t v) k = later t (k v)"
| "await (Rejects t e) k = Rejects t e"
| "await Pending k = Pending"

section \<open>The parallel execution engine (utils/parallel)\<close>

record ('e, 'f, 'p) ParallelResults =
  exa :: "'e option"
  firecrawl :: "'f option"
  perplexity :: "'p option"
  errors :: "string list"

text \<open>\<open>safeCall\<close>: the call raced against a timer that rejects.\<close>

definition safeCall :: "'a promise \<Rightarrow> nat \<Rightarrow> 'a promise" where
  "safeCall fn timeoutMs =
     race fn (Rejects timeoutMs (Error (''Timeout after '' @ show_nat timeoutMs @ ''ms'')))"

text \<open>
  One guarded branch of \<open>parallelServices\<close>, \<open>safeCall(...).catch((e) => {...})\<close>: the slot
  it fills (\<open>None\<close> is \<open>null\<close>), and what its handler pushes on \<open>errors\<close> and when.
\<close>

definition slot :: "'a promise \<Rightarrow> 'a option promise" where
  "slot p = catch_value (promise_map Some p) (\<lambda>e. None)"

fun pushed :: "string \<Rightarrow> 'a promise \<Rightarrow> (nat \<times> string) list" where
  "pushed name (Rejects t e) = [(t, ''['' @ name @ ''] '' @ reason_text e)]"
| "pushed name _ = []"

text \<open>
  The shared array \<open>errors\<close> when all handlers have run: the messages in the order in
  which they were pushed.
\<close>

definition pushes_in_order :: "(nat \<times> string) list \<Rightarrow> string list" where
  "pushes_in_order ps = map snd (sort_key fst ps)"

definition parallelServices ::
  "'e promise \<Rightarrow> 'f promise \<Rightarrow> 'p promise \<Rightarrow> ('e, 'f, 'p) ParallelResults promise"
where
  "parallelServices exa_call firecrawl_call perplexity_call =
     (let e = safeCall exa_call 120000;
          f = safeCall firecrawl_call 120000;
          p = safeCall perplexity_call 180000
      in await (both (slot e) (both (slot f) (slot p)))
           (\<lambda>(exaResult, firecrawlResult, perplexityResult).
              Resolves 0
                \<lparr>exa = exaResult, firecrawl = firecrawlResult, perplexity = perplexityResult,
                 errors = pushes_in_order
                   (pushed ''Exa'' e @ pushed ''Firecrawl'' f @ pushed ''Perplexity'' p)\<rparr>))"

text \<open>The decimal text of an integer.\<close>

definition show_int :: "int \<Rightarrow> string" where
  "show_int i = (if i < 0 then CHR ''-'' # show_nat (nat (- i)) else show_nat (nat i))"

text \<open>
  What the handler of one item of a batch pushes on \<open>errors\<close>:
  \<open>Batch item <index>: <message>\<close>.
\<close>

fun pushed_item :: "int \<Rightarrow> 'r promise \<Rightarrow> (nat \<times> string) list" where
  "pushed_item k (Rejects t e) =
     [(t, ''Batch item '' @ show_int k @ '': '' @ reason_text e)]"
| "pushed_item k _ = []"

definition batchPushed :: "int \<Rightarrow> 'r promise list \<Rightarrow> (nat \<times> string) list" where
  "batchPushed i calls =
     concat (map (\<lambda>(idx, p). pushed_item (i + int idx) p) (enumerate 0 calls))"

record 'r BatchResults =
  results :: "'r option list"
  errors :: "string list"

text \<open>
  The loop of \<open>batchProcess\<close>, \<open>for (let i = 0; i < items.length; i += batchSize)\<close>, with
  its variables as arguments; \<open>now\<close> is the time spent so far. The batch size is a
  number that the caller chooses, here an integer of either sign. The loop need not
  end: \<open>None\<close> is the run that never leaves it.
\<close>

partial_function (option) batchLoop ::
  "'a list \<Rightarrow> int \<Rightarrow> ('a \<Rightarrow> 'r promise) \<Rightarrow> int \<Rightarrow> nat \<Rightarrow> 'r option list \<Rightarrow> string list
     \<Rightarrow> 'r BatchResults promise option"
where
  "batchLoop items batchSize processor i now rs es =
     (if i < int (length items) then
        (case Promise_all (map slot (map processor (slice items i (i + batchSize)))) of
           Resolves t batchResults \<Rightarrow>
             batchLoop items batchSize processor (i + batchSize) (now + t)
               (rs @ batchResults)
               (es @ pushes_in_order
                  (batchPushed i (map processor (slice items i (i + batchSize)))))
         | Rejects t e \<Rightarrow> Some (Rejects (now + t) e)
         | Pending \<Rightarrow> Some Pending)
      else Some (Resolves now \<lparr>results = rs, errors = es\<rparr>))"

definition batchProcess ::
  "'a list \<Rightarrow> int \<Rightarrow> ('a \<Rightarrow> 'r promise) \<Rightarrow> 'r BatchResults promise option"
where
  "batchProcess items batchSize processor = batchLoop items batchSize processor 0 0 [] []"

text \<open>
  The repository holds a second, earlier \<open>batchProcess\<close>: the same loop without the error
  list, returning the array of results.
\<close>

partial_function (option) batchLoop_plain ::
  "'a list \<Rightarrow> int \<Rightarrow> ('a \<Rightarrow> 'r promise) \<Rightarrow> int \<Rightarrow> nat \<Rightarrow> 'r option list
     \<Rightarrow> 'r option list promise option"
where
  "batchLoop_plain items batchSize processor i now rs =
     (if i < int (length items) then
        (case Promise_all (map slot (map processor (slice items i (i + batchSize)))) of
           Resolves t batchResults \<Rightarrow>
             batchLoop_plain items batchSize processor (i + batchSize) (now + t)
               (rs @ batchResults)
         | Rejects t e \<Rightarrow> Some (Rejects (now + t) e)
         | Pending \<Rightarrow> Some Pending)
      else Some (Resolves now rs))"

definition batchProcess_plain ::
  "'a list \<Rightarrow> int \<Rightarrow> ('a \<Rightarrow> 'r promise) \<Rightarrow> 'r option list promise option"
where
  "batchProcess_plain items batchSize processor =
     batchLoop_plain items batchSize processor 0 0 []"

text \<open>
  A call is in time when it is fulfilled no later than its timer fires (the call is set
  up before the timer, so it wins a tie).
\<close>

fun in_time :: "'a promise \<Rightarrow> nat \<Rightarrow> bool" where
  "in_time (Resolves t v) timeoutMs = (t \<le> timeoutMs)"
| "in_time _ timeoutMs = False"

text \<open>How one awaited call ended: the value it was fulfilled with, or that it was rejected.\<close>

fun fulfilled :: "'a promise \<Rightarrow> 'a option" where
  "fulfilled (Resolves t v) = Some v"
| "fulfilled _ = None"

fun rejected :: "'a promise \<Rightarrow> bool" where
  "rejected (Rejects t e) = True"
| "rejected _ = False"

section \<open>The output formatter (utils/formatters)\<close>

definition newline :: string where
  "newline = [CHR 0x0A]"

fun source_name :: "source \<Rightarrow> string" where
  "source_name Exa = ''exa''"
| "source_name Firecrawl = ''firecrawl''"
| "source_name Perplexity = ''perplexity''"

text \<open>The optional second argument of \<open>formatSearchResults\<close>; \<open>None\<close> is an absent field.\<close>

record FormatOptions =
  showContent :: "bool option"
  maxResults :: "int option"

text \<open>\<open>countSources\<close>: the size of the set of all providers named in the results.\<close>

definition countSources :: "MergedResult list \<Rightarrow> nat" where
  "countSources rs = length (remdups (concat (map sources rs)))"

text \<open>The lines that one pass of the loop of \<open>formatSearchResults\<close> pushes.\<close>

definition resultLines :: "FormatOptions option \<Rightarrow> nat \<Rightarrow> MergedResult \<Rightarrow> string list" where
  "resultLines options i r =
     (let sourcesBadge = join '' '' (map (\<lambda>s. ''`'' @ source_name s @ ''`'') (sources r));
          datePart = (if truthy (MergedResult.publishedDate r)
                      then '' | '' @ slice (the (MergedResult.publishedDate r)) 0 10 else [])
      in [''### '' @ show_nat (i + 1) @ ''. ['' @ MergedResult.title r @ '']('' @
            MergedResult.url r @ '')'',
          ''Sources: '' @ sourcesBadge @ datePart @ newline]
         @ (if MergedResult.snippet r \<noteq> []
            then [''> '' @ slice (MergedResult.snippet r) 0 500 @ newline] else [])
         @ (if (case options of None \<Rightarrow> False | Some opts \<Rightarrow> showContent opts = Some True)
               \<and> truthy (MergedResult.content r)
            then [''<details><summary>Full content</summary>'' @ newline @ newline @
                  slice (the (MergedResult.content r)) 0 5000 @ newline @ newline @
                  ''</details>'' @ newline]
            else []))"

definition formatSearchResults :: "MergedResult list \<Rightarrow> FormatOptions option \<Rightarrow> string" where
  "formatSearchResults rs options =
     (let max_results = (case options of
                           None \<Rightarrow> int (length rs)
                         | Some opts \<Rightarrow> (case maxResults opts of
                                           None \<Rightarrow> int (length rs)
                                         | Some n \<Rightarrow> n));
          items = slice rs 0 max_results
      in if length items = 0 then ''No results found.''
         else join newline
           ((''## Search Results ('' @ show_nat (length items) @ '' unique from '' @
               show_nat (countSources items) @ '' services)'' @ newline)
            # concat (map (\<lambda>(i, r). resultLines options i r) (enumerate 0 items))))"

record SummarySource =
  url :: string
  title :: string

definition formatSummary :: "string \<Rightarrow> SummarySource list \<Rightarrow> string" where
  "formatSummary summary srcs =
     join newline
       ([''## Research Summary'' @ newline,
         summary,
         newline @ ''---'' @ newline @ ''## Sources ('' @ show_nat (length srcs) @ '')'' @ newline]
        @ map (\<lambda>(i, s). show_nat (i + 1) @ ''. ['' @
                 (if SummarySource.title s \<noteq> [] then SummarySource.title s
                  else SummarySource.url s) @
                 '']('' @ SummarySource.url s @ '')'')
            (enumerate 0 srcs))"

text \<open>
  The records that \<open>formatComparison\<close> tabulates are \<open>Record<string, any>\<close>: what the
  extraction provider's JSON holds, with an address and a tag added. A value is
  \<open>undefined\<close>, \<open>null\<close>, a boolean, a number, a string, an array or a plain object (the
  list of its own properties, in the order \<open>Object.keys\<close> gives them), or one of the
  built-in members that every plain object inherits, given by the text \<open>String\<close> makes
  of it.
\<close>

datatype jsval =
    JUndefined
  | JNull
  | JBoolean bool
  | JNumber real
  | JString string
  | JArray "jsval list"
  | JObject "(string \<times> jsval) list"
  | JNative string

type_synonym js_record = "(string \<times> jsval) list"

text \<open>
  The members of \<open>Object.prototype\<close>, which \<open>item[c]\<close> finds when the record has no
  property \<open>c\<close> of its own: eleven functions and, under \<open>__proto__\<close>, the prototype
  itself (printed as any plain object is).
\<close>

definition native_function :: "string \<Rightarrow> jsval" where
  "native_function name = JNative (''function '' @ name @ ''() { [native code] }'')"

definition Object_prototype :: js_record where
  "Object_prototype =
     [(''constructor'', native_function ''Object''),
      (''__defineGetter__'', native_function ''__defineGetter__''),
      (''__defineSetter__'', native_function ''__defineSetter__''),
      (''hasOwnProperty'', native_function ''hasOwnProperty''),
      (''__lookupGetter__'', native_function ''__lookupGetter__''),
      (''__lookupSetter__'', native_function ''__lookupSetter__''),
      (''isPrototypeOf'', native_function ''isPrototypeOf''),
      (''propertyIsEnumerable'', native_function ''propertyIsEnumerable''),
      (''toString'', native_function ''toString''),
      (''valueOf'', native_function ''valueOf''),
      (''toLocaleString'', native_function ''toLocaleString''),
      (''__proto__'', JObject [])]"

text \<open>\<open>item[c]\<close>: the own property, else the inherited one, else \<open>undefined\<close>.\<close>

definition property :: "js_record \<Rightarrow> string \<Rightarrow> jsval" where
  "property item c =
     (case map_of item c of
        Some v \<Rightarrow> v
      | None \<Rightarrow> (case map_of Object_prototype c of Some v \<Rightarrow> v | None \<Rightarrow> JUndefined))"

text \<open>The first error of a list of attempts, or all their results.\<close>

fun collect :: "(reason + 'a) list \<Rightarrow> reason + 'a list" where
  "collect [] = Inr []"
| "collect (Inl e # rest) = Inl e"
| "collect (Inr x # rest) = (case collect rest of Inl e \<Rightarrow> Inl e | Inr xs \<Rightarrow> Inr (x # xs))"

text \<open>
  \<open>String(v)\<close>, also what a template literal makes of \<open>v\<close>. How a number is printed is the
  platform's business and a parameter here. An array prints its elements, joined by
  commas, \<open>null\<close> and \<open>undefined\<close> as nothing. A plain object prints as
  \<open>[object Object]\<close> through the inherited \<open>toString\<close>; when it has a property \<open>toString\<close> of
  its own, which in JSON is never a function, neither that nor \<open>valueOf\<close> gives a
  primitive value and a \<open>TypeError\<close> is thrown.
\<close>

definition cannot_convert :: reason where
  "cannot_convert = Error ''Cannot convert object to primitive value''"

fun js_String :: "(real \<Rightarrow> string) \<Rightarrow> jsval \<Rightarrow> reason + string" where
  "js_String num JUndefined = Inr ''undefined''"
| "js_String num JNull = Inr ''null''"
| "js_String num (JBoolean b) = Inr (if b then ''true'' else ''false'')"
| "js_String num (JNumber x) = Inr (num x)"
| "js_String num (JString s) = Inr s"
| "js_String num (JNative t) = Inr t"
| "js_String num (JObject props) =
     (if ''toString'' \<in> set (map fst props) then Inl cannot_convert
      else Inr ''[object Object]'')"
| "js_String num (JArray xs) =
     (case collect (map (\<lambda>v. if v = JUndefined \<or> v = JNull then Inr []
                                else js_String num v) xs) of
        Inl e \<Rightarrow> Inl e
      | Inr texts \<Rightarrow> Inr (join '','' texts))"

fun js_truthy :: "jsval \<Rightarrow> bool" where
  "js_truthy JUndefined = False"
| "js_truthy JNull = False"
| "js_truthy (JBoolean b) = b"
| "js_truthy (JNumber x) = (x \<noteq> 0)"
| "js_truthy (JString s) = (s \<noteq> [])"
| "js_truthy _ = True"

text \<open>\<open>String(item[c] ?? "-").slice(0, 100)\<close>.\<close>

definition cellText :: "(real \<Rightarrow> string) \<Rightarrow> js_record \<Rightarrow> string \<Rightarrow> reason + string" where
  "cellText num item c =
     (case js_String num (if property item c = JUndefined \<or> property item c = JNull
                          then JString ''-'' else property item c) of
        Inl e \<Rightarrow> Inl e
      | Inr s \<Rightarrow> Inr (slice s 0 100))"

text \<open>\<open>item.url ? `[link](${item.url})` : "-"\<close>.\<close>

definition linkText :: "(real \<Rightarrow> string) \<Rightarrow> js_record \<Rightarrow> reason + string" where
  "linkText num item =
     (if js_truthy (property item ''url'')
      then (case js_String num (property item ''url'') of
              Inl e \<Rightarrow> Inl e
            | Inr u \<Rightarrow> Inr (''[link]('' @ u @ '')''))
      else Inr ''-'')"

text \<open>The columns: the criteria, or without any the keys of the first record.\<close>

definition comparisonColumns :: "js_record list \<Rightarrow> string list \<Rightarrow> string list" where
  "comparisonColumns items criteria =
     (if length criteria > 0 then criteria
      else filter (\<lambda>k. k \<noteq> ''url'' \<and> k \<noteq> ''source'') (map fst (hd items)))"

definition comparisonRow ::
  "(real \<Rightarrow> string) \<Rightarrow> string list \<Rightarrow> nat \<times> js_record \<Rightarrow> reason + string"
where
  "comparisonRow num cols p =
     (case collect (map (cellText num (snd p)) cols) of
        Inl e \<Rightarrow> Inl e
      | Inr values \<Rightarrow>
          (case linkText num (snd p) of
             Inl e \<Rightarrow> Inl e
           | Inr link \<Rightarrow>
               Inr (''| '' @ show_nat (fst p + 1) @ '' | '' @ join '' | '' values @ '' | '' @
                    link @ '' |'')))"

text \<open>\<open>formatComparison\<close>; \<open>Inl\<close> is the error it throws.\<close>

definition formatComparison ::
  "(real \<Rightarrow> string) \<Rightarrow> js_record list \<Rightarrow> string list \<Rightarrow> reason + string"
where
  "formatComparison num items criteria =
     (if length items = 0 then Inr ''No items to compare.''
      else
        (let cols = comparisonColumns items criteria
         in case collect (map (comparisonRow num cols) (enumerate 0 items)) of
              Inl e \<Rightarrow> Inl e
            | Inr rows \<Rightarrow>
                Inr (join newline
                       ([''## Comparison ('' @ show_nat (length items) @ '' offers)'' @ newline,
                         ''| # | '' @ join '' | '' cols @ '' | Source |'',
                         ''|---|'' @ join ''|'' (map (\<lambda>c. ''---'') cols) @ ''|---|'']
                        @ rows))))"

definition formatErrors :: "string list \<Rightarrow> string" where
  "formatErrors errs =
     (if length errs = 0 then []
      else join newline
             ([newline @ ''---'',
               ''**WARNING: '' @ show_nat (length errs) @ '' service(s) failed:**'' @ newline]
              @ map (\<lambda>err. ''- '' @ err) errs @ [[]]))"

record ServiceStatus =
  exa :: bool
  firecrawl :: bool
  perplexity :: bool

definition mark :: "bool \<Rightarrow> string" where
  "mark ok = (if ok then ''OK'' else ''FAILED'')"

definition formatServiceStatus :: "ServiceStatus \<Rightarrow> string" where
  "formatServiceStatus services =
     ''**Services:** Exa: '' @ mark (ServiceStatus.exa services) @
     '' | Firecrawl: '' @ mark (ServiceStatus.firecrawl services) @
     '' | Perplexity: '' @ mark (ServiceStatus.perplexity services) @ newline"

section \<open>The mass-collection workflow (tools/mass-summary)\<close>

text \<open>
  What the provider clients return, with the fields that the workflow reads. An optional
  field is an option.
\<close>

record ExaSearchResult =
  title :: string
  url :: string
  "text" :: "string option"
  summary :: "string option"

record ExaSearchResponse =
  results :: "ExaSearchResult list"

record FirecrawlSearchResult =
  url :: string
  title :: "string option"
  description :: "string option"
  summary :: "string option"


record PerplexityCitation =
  url :: string
  title :: "string option"
  snippet :: "string option"




record UrlEntry =
  url :: string
  title :: string
  snippet :: string




























section \<open>Example inputs\<close>

text \<open>Three observations of one page, two of them by the same provider.\<close>

definition observations_example :: "SearchResult list" where
  "observations_example =
     [\<lparr>SearchResult.url = ''https://a.com/x'', title = ''T'', snippet = ''s'', content = None,
        publishedDate = None, source = Exa, score = None\<rparr>,
      \<lparr>SearchResult.url = ''http://www.a.com/x/'', title = ''U'', snippet = ''longer'',
        content = None, publishedDate = None, source = Firecrawl, score = None\<rparr>,
      \<lparr>SearchResult.url = ''http://a.com/x'', title = ''V'', snippet = [], content = None,
        publishedDate = None, source = Exa, score = Some 5\<rparr>]"

text \<open>
  Two observations of one page by two providers, the first with the score
  \<open>2 ^ 53 - 1 = 9007199254740991\<close>.
\<close>

definition large_score_example :: "SearchResult list" where
  "large_score_example =
     [\<lparr>SearchResult.url = ''https://a.com/x'', title = ''T'', snippet = ''s'', content = None,
        publishedDate = None, source = Exa, score = Some 9007199254740991\<rparr>,
      \<lparr>SearchResult.url = ''http://www.a.com/x/'', title = ''U'', snippet = ''longer'',
        content = None, publishedDate = None, source = Firecrawl, score = None\<rparr>]"

text \<open>Four merged records with the source counts 1, 2, 2, 1.\<close>

definition merged_example :: "string \<Rightarrow> source list \<Rightarrow> real \<Rightarrow> MergedResult" where
  "merged_example name srcs s =
     \<lparr>MergedResult.url = name, normalizedUrl = name, title = name, snippet = [],
      content = None, publishedDate = None, sources = srcs, relevanceScore = s\<rparr>"

definition ranking_example :: "MergedResult list" where
  "ranking_example =
     [merged_example ''r1'' [Exa] 1, merged_example ''r2'' [Exa, Firecrawl] 2,
      merged_example ''r3'' [Firecrawl, Perplexity] 2, merged_example ''r4'' [Perplexity] 1]"

text \<open>A processor that fails on the item 3 and squares every other number.\<close>

definition square_but_three :: "nat \<Rightarrow> nat promise" where
  "square_but_three n = (if n = 3 then Rejects 7 (Error ''boom'') else Resolves 10 (n * n))"



text \<open>
  A way of printing numbers, right for the whole numbers below \<open>10\<^sup>2\<^sup>1\<close> in size, and a
  record whose one value is an object with a property \<open>toString\<close>.
\<close>

definition whole_number_text :: "real \<Rightarrow> string" where
  "whole_number_text x = show_int \<lfloor>x\<rfloor>"

definition unprintable_offer :: js_record where
  "unprintable_offer = [(''price'', JObject [(''toString'', JNumber 1)])]"

definition plain_offer :: js_record where
  "plain_offer = [(''name'', JString ''X''), (''price'', JNumber 5), (''url'', JString ''https://a.com/x'')]"

section \<open>Properties of the addition of numbers\<close>

lemma round_half_even_of_int [simp]: "round_half_even (of_int k) = k"
  by (simp add: round_half_even_def)

lemma powi_less_exp:
  assumes "(2::real) powi m < 2 powi n"
  shows "m < n"
proof (rule ccontr)
  assume "\<not> m < n"
  then have "n \<le> m" by simp
  then have "(2::real) powi n \<le> 2 powi m" by (rule power_int_increasing) simp
  with assms show False by simp
qed

lemma binade_search_eq:
  "2 powi e \<le> a \<Longrightarrow> a < 2 powi (e + 1) \<Longrightarrow> - 1022 \<le> e \<Longrightarrow> e \<le> int n - 1022 \<Longrightarrow>
   binade_search n a = e"
proof (induction n)
  case 0
  then show ?case by simp
next
  case (Suc n)
  show ?case
  proof (cases "(2::real) powi (int (Suc n) - 1022) \<le> a")
    case True
    with Suc.prems(2) have "(2::real) powi (int (Suc n) - 1022) < 2 powi (e + 1)" by simp
    then have "int (Suc n) - 1022 < e + 1" by (rule powi_less_exp)
    with Suc.prems(4) have "int (Suc n) - 1022 = e" by simp
    with True show ?thesis by simp
  next
    case False
    with Suc.prems(1) have "(2::real) powi e < 2 powi (int (Suc n) - 1022)" by simp
    then have "e < int (Suc n) - 1022" by (rule powi_less_exp)
    then have "e \<le> int n - 1022" by simp
    with Suc.prems Suc.IH False show ?thesis by simp
  qed
qed

lemma binade_eq:
  "2 powi e \<le> \<bar>x\<bar> \<Longrightarrow> \<bar>x\<bar> < 2 powi (e + 1) \<Longrightarrow> - 1022 \<le> e \<Longrightarrow> e \<le> 1023 \<Longrightarrow> binade x = e"
  unfolding binade_def by (rule binade_search_eq) simp_all

lemma to_double_scaled:
  assumes "binade x = e" and "x / 2 powi (e - 52) = of_int j"
  shows "to_double x = x"
proof (cases "x = 0")
  case True
  then show ?thesis by (simp add: to_double_def)
next
  case False
  have pos: "(2::real) powi (e - 52) \<noteq> 0" by simp
  from assms(2) pos have "x = 2 powi (e - 52) * of_int j"
    by (simp add: field_simps)
  moreover from False assms have "to_double x = 2 powi (e - 52) * of_int j"
    by (simp add: to_double_def Let_def)
  ultimately show ?thesis by simp
qed

lemma to_double_of_int:
  assumes "\<bar>k\<bar> \<le> 2 ^ 53"
  shows "to_double (of_int k) = of_int k"
proof (cases "k = 0")
  case True
  then show ?thesis by (simp add: to_double_def)
next
  case False
  then have "1 \<le> nat \<bar>k\<bar>" by simp
  from ex_power_ivl1 [of 2, OF _ this] obtain e :: nat
    where e: "2 ^ e \<le> nat \<bar>k\<bar>" "nat \<bar>k\<bar> < 2 ^ (e + 1)" by auto
  from e(1) have "int (2 ^ e) \<le> int (nat \<bar>k\<bar>)" by (simp only: of_nat_le_iff)
  then have lo: "(2::int) ^ e \<le> \<bar>k\<bar>" by simp
  from e(2) have "int (nat \<bar>k\<bar>) < int (2 ^ (e + 1))" by (simp only: of_nat_less_iff)
  then have hi: "\<bar>k\<bar> < (2::int) ^ (e + 1)" by simp
  from lo assms have "(2::int) ^ e \<le> 2 ^ 53" by (rule order_trans)
  then have e53: "e \<le> 53" by (simp only: power_increasing_iff [of 2])
  have p: "(2::real) powi int n = of_int (2 ^ n)" for n
    by (simp add: power_int_of_nat)
  from lo have "(of_int (2 ^ e) :: real) \<le> of_int \<bar>k\<bar>" by (simp only: of_int_le_iff)
  then have lo': "(2::real) powi int e \<le> \<bar>of_int k\<bar>"
    by (simp only: p of_int_abs)
  from hi have "(of_int \<bar>k\<bar> :: real) < of_int (2 ^ (e + 1))" by (simp only: of_int_less_iff)
  then have "\<bar>of_int k :: real\<bar> < 2 powi int (e + 1)"
    by (simp only: p of_int_abs)
  moreover have "int (e + 1) = int e + 1" by simp
  ultimately have hi': "\<bar>of_int k :: real\<bar> < 2 powi (int e + 1)" by (simp only:)
  have "- 1022 \<le> int e" by simp
  moreover from e53 have "int e \<le> 1023" by simp
  ultimately have b: "binade (of_int k :: real) = int e"
    using lo' hi' by (intro binade_eq)
  show ?thesis
  proof (cases "e \<le> 52")
    case True
    define d where "d = 52 - e"
    from True have "int e - 52 = - int d" by (simp add: d_def)
    then have "(2::real) powi (int e - 52) = inverse (2 ^ d)"
      by (simp only: power_int_minus power_int_of_nat)
    then have "of_int k / (2::real) powi (int e - 52) = of_int k * 2 ^ d"
      by (simp add: field_simps)
    also have "\<dots> = of_int (k * 2 ^ d)" by simp
    finally show ?thesis by (rule to_double_scaled [OF b])
  next
    case False
    with e53 have e: "e = 53" by simp
    have "(2::real) powi (int e - 52) = 2" by (simp add: e)
    moreover from lo assms e have "\<bar>k\<bar> = 2 ^ 53" by simp
    then have "\<bar>k\<bar> = 9007199254740992" by simp
    then have "\<exists>j. k = 2 * j" by presburger
    then obtain j where "k = 2 * j" ..
    then have "(of_int k :: real) / 2 = of_int j" by simp
    ultimately have "(of_int k :: real) / 2 powi (int e - 52) = of_int j" by simp
    then show ?thesis by (rule to_double_scaled [OF b])
  qed
qed

lemma to_double_above: "to_double (2 ^ 53 + 1) = 2 ^ 53"
proof -
  have b: "binade 9007199254740993 = 53"
    by (rule binade_eq) simp_all
  have r: "round_half_even (9007199254740993 / 2) = 4503599627370496"
    by (simp add: round_half_even_def Let_def)
  have "to_double 9007199254740993 = 9007199254740992"
    by (simp add: to_double_def b r Let_def)
  then show ?thesis by simp
qed

lemma number_add_of_int:
  "\<bar>j + k\<bar> \<le> 2 ^ 53 \<Longrightarrow> number_add (of_int j) (of_int k) = of_int (j + k)"
  using to_double_of_int [of "j + k"] by (simp add: number_add_def)

lemma number_add_1_0: "number_add 1 0 = 1"
  using number_add_of_int [of 1 0] by simp

lemma number_add_1_1: "number_add 1 1 = 2"
  using number_add_of_int [of 1 1] by simp

lemma number_add_below: "number_add 1 9007199254740991 = 9007199254740992"
  using number_add_of_int [of 1 9007199254740991] by simp

lemma number_add_above: "number_add 9007199254740992 1 = 9007199254740992"
  using to_double_above by (simp add: number_add_def)


section \<open>Properties of merging\<close>

lemma absorb_url [simp]: "MergedResult.url (absorb e r) = MergedResult.url e"
  by (simp add: absorb_def Let_def)

lemma absorb_normalizedUrl [simp]: "normalizedUrl (absorb e r) = normalizedUrl e"
  by (simp add: absorb_def Let_def)

lemma absorb_sources:
  "sources (absorb e r) =
     (if source r \<in> set (sources e) then sources e else sources e @ [source r])"
  by (simp add: absorb_def Let_def)

lemma absorb_relevanceScore:
  "relevanceScore (absorb e r) =
     (if source r \<in> set (sources e) then relevanceScore e
      else number_add (relevanceScore e) 1)"
  by (simp add: absorb_def Let_def)

lemma set_update_cases:
  "(k', v') \<in> set (AList.update k v m) \<Longrightarrow> (k', v') = (k, v) \<or> (k', v') \<in> set m"
  by (induction m) (auto split: if_splits)

lemma mergeStep_entry_ok:
  assumes "\<forall>p \<in> set m. entry_ok parse p"
  shows "\<forall>p \<in> set (mergeStep parse r m). entry_ok parse p"
proof
  fix p assume p: "p \<in> set (mergeStep parse r m)"
  let ?key = "normalizeUrl parse (SearchResult.url r)"
  show "entry_ok parse p"
  proof (cases "map_of m ?key")
    case None
    with p have "p = (?key, fresh ?key r) \<or> p \<in> set m"
      using set_update_cases [of "fst p" "snd p" ?key "fresh ?key r" m]
      by (simp add: mergeStep_def Let_def)
    then show ?thesis using assms by (auto simp: entry_ok_def fresh_def)
  next
    case (Some e)
    then have "(?key, e) \<in> set m" by (rule map_of_SomeD)
    with assms have e: "entry_ok parse (?key, e)" by blast
    from p Some have "p = (?key, absorb e r) \<or> p \<in> set m"
      using set_update_cases [of "fst p" "snd p" ?key "absorb e r" m]
      by (simp add: mergeStep_def Let_def)
    then show ?thesis using assms e by (auto simp: entry_ok_def absorb_sources)
  qed
qed

lemma fold_mergeStep_entry_ok:
  "\<forall>p \<in> set m. entry_ok parse p \<Longrightarrow>
   \<forall>p \<in> set (fold (mergeStep parse) rs m). entry_ok parse p"
proof (induction rs arbitrary: m)
  case Nil
  then show ?case by simp
next
  case (Cons r rs)
  from Cons.prems have "\<forall>p \<in> set (mergeStep parse r m). entry_ok parse p"
    by (rule mergeStep_entry_ok)
  then show ?case using Cons.IH by simp
qed

lemma key_a_https: "normalizeUrl new_URL ''https://a.com/x'' = ''a.com/x''"
  by code_simp

lemma key_a_www: "normalizeUrl new_URL ''http://www.a.com/x/'' = ''a.com/x''"
  by code_simp

lemma key_a_http: "normalizeUrl new_URL ''http://a.com/x'' = ''a.com/x''"
  by code_simp

lemma merge_one_observation:
  "mergeResults new_URL (take 1 observations_example)
   = [\<lparr>MergedResult.url = ''https://a.com/x'', normalizedUrl = ''a.com/x'', title = ''T'',
       snippet = ''s'', content = None, publishedDate = None, sources = [Exa],
       relevanceScore = 1\<rparr>]"
  by (simp add: observations_example_def mergeResults_def mergeStep_def Let_def key_a_https
      fresh_def number_add_1_0)

lemma merge_two_observations:
  "mergeResults new_URL (take 2 observations_example)
   = [\<lparr>MergedResult.url = ''https://a.com/x'', normalizedUrl = ''a.com/x'', title = ''T'',
       snippet = ''longer'', content = None, publishedDate = None, sources = [Exa, Firecrawl],
       relevanceScore = 2\<rparr>]"
  by (simp add: observations_example_def mergeResults_def mergeStep_def Let_def key_a_https
      key_a_www fresh_def absorb_def number_add_1_0 number_add_1_1)

lemma merge_three_observations:
  "mergeResults new_URL observations_example
   = [\<lparr>MergedResult.url = ''https://a.com/x'', normalizedUrl = ''a.com/x'', title = ''T'',
       snippet = ''longer'', content = None, publishedDate = None, sources = [Exa, Firecrawl],
       relevanceScore = 2\<rparr>]"
  by (simp add: observations_example_def mergeResults_def mergeStep_def Let_def key_a_https
      key_a_www key_a_http fresh_def absorb_def number_add_1_0 number_add_1_1)

text \<open>
  C6. Whatever the list of results and whatever the URL constructor answers, every
  merged record that \<open>mergeResults\<close> returns lists each provider at most once, and its
  \<open>normalizedUrl\<close> is \<open>normalizeUrl\<close> of its \<open>url\<close>.
\<close>

theorem mergeResults_invariant:
  "\<forall>m \<in> set (mergeResults parse rs).
     distinct (sources m) \<and> normalizedUrl m = normalizeUrl parse (MergedResult.url m)"
proof -
  have "\<forall>p \<in> set (fold (mergeStep parse) rs []). entry_ok parse p"
    by (rule fold_mergeStep_entry_ok) simp
  then show ?thesis by (auto simp: mergeResults_def entry_ok_def)
qed

theorem mergeResults_invariant_witness:
  "mergeResults new_URL observations_example \<noteq> [] \<and>
   distinct (sources (hd (mergeResults new_URL observations_example))) \<and>
   normalizedUrl (hd (mergeResults new_URL observations_example))
     = normalizeUrl new_URL (MergedResult.url (hd (mergeResults new_URL observations_example)))"
  using mergeResults_invariant [of new_URL observations_example]
  by (simp add: merge_three_observations)

lemma mergeStep_keys:
  assumes "distinct (map fst m)" and "\<forall>p \<in> set m. fst p = normalizedUrl (snd p)"
  shows "distinct (map fst (mergeStep parse r m)) \<and>
         (\<forall>p \<in> set (mergeStep parse r m). fst p = normalizedUrl (snd p))"
proof
  show "distinct (map fst (mergeStep parse r m))"
    using assms(1) by (simp add: mergeStep_def Let_def distinct_update split: option.split)
next
  let ?key = "normalizeUrl parse (SearchResult.url r)"
  show "\<forall>p \<in> set (mergeStep parse r m). fst p = normalizedUrl (snd p)"
  proof
    fix p assume p: "p \<in> set (mergeStep parse r m)"
    show "fst p = normalizedUrl (snd p)"
    proof (cases "map_of m ?key")
      case None
      with p have "p = (?key, fresh ?key r) \<or> p \<in> set m"
        using set_update_cases [of "fst p" "snd p" ?key "fresh ?key r" m]
        by (simp add: mergeStep_def Let_def)
      then show ?thesis using assms(2) by (auto simp: fresh_def)
    next
      case (Some e)
      then have "(?key, e) \<in> set m" by (rule map_of_SomeD)
      with assms(2) have e: "?key = normalizedUrl e" by fastforce
      from p Some have "p = (?key, absorb e r) \<or> p \<in> set m"
        using set_update_cases [of "fst p" "snd p" ?key "absorb e r" m]
        by (simp add: mergeStep_def Let_def)
      then show ?thesis using assms(2) e by auto
    qed
  qed
qed

lemma fold_mergeStep_keys:
  "distinct (map fst m) \<Longrightarrow> \<forall>p \<in> set m. fst p = normalizedUrl (snd p) \<Longrightarrow>
   distinct (map fst (fold (mergeStep parse) rs m)) \<and>
   (\<forall>p \<in> set (fold (mergeStep parse) rs m). fst p = normalizedUrl (snd p))"
proof (induction rs arbitrary: m)
  case Nil
  then show ?case by simp
next
  case (Cons r rs)
  from Cons.prems
  have "distinct (map fst (mergeStep parse r m)) \<and>
        (\<forall>p \<in> set (mergeStep parse r m). fst p = normalizedUrl (snd p))"
    by (rule mergeStep_keys)
  then have a: "distinct (map fst (mergeStep parse r m))"
    and b: "\<forall>p \<in> set (mergeStep parse r m). fst p = normalizedUrl (snd p)" by blast+
  from Cons.IH [OF a b] show ?case by simp
qed

lemma update_at:
  "distinct (map fst m) \<Longrightarrow> i < length m \<Longrightarrow> fst (m ! i) = k \<Longrightarrow>
   AList.update k v m = m[i := (k, v)]"
proof (induction m arbitrary: i)
  case Nil
  then show ?case by simp
next
  case (Cons a m)
  show ?case
  proof (cases i)
    case 0
    with Cons.prems show ?thesis by (cases a) simp
  next
    case (Suc j)
    with Cons.prems have j: "j < length m" "fst (m ! j) = k" by simp_all
    from j(1) have "m ! j \<in> set m" by simp
    then have "fst (m ! j) \<in> fst ` set m" by (rule imageI)
    with j(2) have "k \<in> fst ` set m" by simp
    moreover from Cons.prems(1) have "fst a \<notin> fst ` set m" by simp
    ultimately have "fst a \<noteq> k" by blast
    moreover from Cons.prems(1) have "distinct (map fst m)" by simp
    from Cons.IH [OF this j] have "AList.update k v m = m[j := (k, v)]" .
    ultimately show ?thesis using Suc by (cases a) simp
  qed
qed

lemma update_absent: "k \<notin> fst ` set m \<Longrightarrow> AList.update k v m = m @ [(k, v)]"
  by (induction m) auto

lemma mergeResults_snoc_present:
  assumes "i < length (mergeResults parse rs)"
    and "normalizedUrl (mergeResults parse rs ! i) = normalizeUrl parse (SearchResult.url r)"
  shows "mergeResults parse (rs @ [r])
         = (mergeResults parse rs)[i := absorb (mergeResults parse rs ! i) r]"
proof -
  define m where "m = fold (mergeStep parse) rs []"
  define key where "key = normalizeUrl parse (SearchResult.url r)"
  have out: "mergeResults parse rs = map snd m" by (simp add: mergeResults_def m_def)
  from fold_mergeStep_keys [of "[]" parse rs]
  have d: "distinct (map fst m)" and n: "\<forall>p \<in> set m. fst p = normalizedUrl (snd p)"
    by (simp_all add: m_def)
  from assms(1) have i: "i < length m" by (simp add: out)
  then have at: "mergeResults parse rs ! i = snd (m ! i)" by (simp add: out)
  from i have "m ! i \<in> set m" by simp
  with n have "fst (m ! i) = normalizedUrl (snd (m ! i))" by blast
  with assms(2) at have k: "fst (m ! i) = key" by (simp add: key_def)
  from i have "(fst (m ! i), snd (m ! i)) \<in> set m" by simp
  with d have "map_of m (fst (m ! i)) = Some (snd (m ! i))" by (rule map_of_is_SomeI)
  with k have "map_of m key = Some (snd (m ! i))" by simp
  then have "mergeStep parse r m = AList.update key (absorb (snd (m ! i)) r) m"
    by (simp add: mergeStep_def key_def Let_def)
  also from d i k have "\<dots> = m[i := (key, absorb (snd (m ! i)) r)]" by (rule update_at)
  finally have "map snd (mergeStep parse r m) = (map snd m)[i := absorb (snd (m ! i)) r]"
    by (simp add: map_update)
  moreover have "mergeResults parse (rs @ [r]) = map snd (mergeStep parse r m)"
    by (simp add: mergeResults_def m_def)
  ultimately show ?thesis by (simp only: out at [unfolded out])
qed

lemma mergeResults_snoc_absent:
  assumes "\<forall>e \<in> set (mergeResults parse rs).
             normalizedUrl e \<noteq> normalizeUrl parse (SearchResult.url r)"
  shows "mergeResults parse (rs @ [r])
         = mergeResults parse rs @ [fresh (normalizeUrl parse (SearchResult.url r)) r]"
proof -
  define m where "m = fold (mergeStep parse) rs []"
  define key where "key = normalizeUrl parse (SearchResult.url r)"
  have out: "mergeResults parse rs = map snd m" by (simp add: mergeResults_def m_def)
  from fold_mergeStep_keys [of "[]" parse rs]
  have n: "\<forall>p \<in> set m. fst p = normalizedUrl (snd p)" by (simp add: m_def)
  have absent: "key \<notin> fst ` set m"
  proof
    assume "key \<in> fst ` set m"
    then obtain p where p: "p \<in> set m" "fst p = key" by auto
    with n have "normalizedUrl (snd p) = key" by auto
    moreover from p(1) have "snd p \<in> set (mergeResults parse rs)" by (simp add: out)
    ultimately show False using assms by (auto simp: key_def)
  qed
  then have "map_of m key = None" by (simp add: map_of_eq_None_iff)
  then have "mergeStep parse r m = AList.update key (fresh key r) m"
    by (simp add: mergeStep_def key_def Let_def)
  also from absent have "\<dots> = m @ [(key, fresh key r)]" by (rule update_absent)
  finally have "map snd (mergeStep parse r m) = map snd m @ [fresh key r]" by simp
  moreover have "mergeResults parse (rs @ [r]) = map snd (mergeStep parse r m)"
    by (simp add: mergeResults_def m_def)
  ultimately show ?thesis by (simp add: out key_def)
qed

lemma merge_large_scores:
  "mergeResults new_URL (take 1 large_score_example)
   = [\<lparr>MergedResult.url = ''https://a.com/x'', normalizedUrl = ''a.com/x'', title = ''T'',
       snippet = ''s'', content = None, publishedDate = None, sources = [Exa],
       relevanceScore = 9007199254740992\<rparr>] \<and>
   mergeResults new_URL large_score_example
   = [\<lparr>MergedResult.url = ''https://a.com/x'', normalizedUrl = ''a.com/x'', title = ''T'',
       snippet = ''longer'', content = None, publishedDate = None, sources = [Exa, Firecrawl],
       relevanceScore = 9007199254740992\<rparr>]"
  by (simp add: large_score_example_def mergeResults_def mergeStep_def Let_def key_a_https
      key_a_www fresh_def absorb_def number_add_below number_add_above)

text \<open>
  C2. Two observations of one page by two different providers, \<open>https://a.com/x\<close> and
  \<open>http://www.a.com/x/\<close>, without scores, merge into one record whose sources are the two
  providers in the order seen and whose score is 2. In general \<open>mergeResults\<close> of no
  results is the empty list, and one more result \<open>r\<close> at the end of the input changes
  the output as follows. When the record at a position \<open>i\<close> has the key of \<open>r\<close>, that
  record absorbs \<open>r\<close> where it stands and nothing else changes: a provider that is new
  to the record is appended to its sources and its score becomes the double-precision
  sum of the score and 1; a provider that the record has already changes neither. When
  no record has the key of \<open>r\<close>, a new record follows the others. The double-precision
  sum of a whole number from 0 up to \<open>2 ^ 53 - 1\<close> and 1 is the exact sum.
\<close>

theorem mergeResults_accumulates:
  "mergeResults parse [] = [] \<and>
   (A \<noteq> B \<longrightarrow>
      (\<exists>M. mergeResults new_URL
         [\<lparr>SearchResult.url = ''https://a.com/x'', title = t1, snippet = s1, content = c1,
            publishedDate = d1, source = A, score = None\<rparr>,
          \<lparr>SearchResult.url = ''http://www.a.com/x/'', title = t2, snippet = s2, content = c2,
            publishedDate = d2, source = B, score = None\<rparr>] = [M] \<and>
        sources M = [A, B] \<and> relevanceScore M = 2)) \<and>
   (i < length (mergeResults parse rs) \<and>
    normalizedUrl (mergeResults parse rs ! i) = normalizeUrl parse (SearchResult.url r) \<longrightarrow>
      mergeResults parse (rs @ [r])
        = (mergeResults parse rs)[i := absorb (mergeResults parse rs ! i) r] \<and>
      (source r \<notin> set (sources (mergeResults parse rs ! i)) \<longrightarrow>
         sources (mergeResults parse (rs @ [r]) ! i)
           = sources (mergeResults parse rs ! i) @ [source r] \<and>
         relevanceScore (mergeResults parse (rs @ [r]) ! i)
           = number_add (relevanceScore (mergeResults parse rs ! i)) 1) \<and>
      (source r \<in> set (sources (mergeResults parse rs ! i)) \<longrightarrow>
         sources (mergeResults parse (rs @ [r]) ! i) = sources (mergeResults parse rs ! i) \<and>
         relevanceScore (mergeResults parse (rs @ [r]) ! i)
           = relevanceScore (mergeResults parse rs ! i))) \<and>
   ((\<forall>e \<in> set (mergeResults parse rs).
        normalizedUrl e \<noteq> normalizeUrl parse (SearchResult.url r)) \<longrightarrow>
      mergeResults parse (rs @ [r])
        = mergeResults parse rs @ [fresh (normalizeUrl parse (SearchResult.url r)) r]) \<and>
   (0 \<le> k \<and> k < 2 ^ 53 \<longrightarrow> number_add (of_int k) 1 = of_int k + 1)"
proof (intro conjI impI)
  show "mergeResults parse [] = []" by (simp add: mergeResults_def)
next
  assume "A \<noteq> B"
  let ?r1 = "\<lparr>SearchResult.url = ''https://a.com/x'', title = t1, snippet = s1, content = c1,
          publishedDate = d1, source = A, score = None\<rparr>"
  let ?r2 = "\<lparr>SearchResult.url = ''http://www.a.com/x/'', title = t2, snippet = s2, content = c2,
          publishedDate = d2, source = B, score = None\<rparr>"
  have 1: "mergeStep new_URL ?r1 [] = [(''a.com/x'', fresh ''a.com/x'' ?r1)]"
    by (simp add: mergeStep_def Let_def key_a_https)
  have 2: "mergeStep new_URL ?r2 [(''a.com/x'', e)] = [(''a.com/x'', absorb e ?r2)]" for e
    by (simp add: mergeStep_def Let_def key_a_www)
  have "mergeResults new_URL [?r1, ?r2] = [absorb (fresh ''a.com/x'' ?r1) ?r2]"
    by (simp only: mergeResults_def fold_simps 1 2 list.map snd_conv comp_apply)
  moreover have "sources (absorb (fresh ''a.com/x'' ?r1) ?r2) = [A, B]"
    using \<open>A \<noteq> B\<close> by (simp add: absorb_sources fresh_def)
  moreover have "relevanceScore (absorb (fresh ''a.com/x'' ?r1) ?r2) = 2"
    using \<open>A \<noteq> B\<close> by (simp add: absorb_relevanceScore fresh_def number_add_1_0 number_add_1_1)
  ultimately show "\<exists>M. mergeResults new_URL [?r1, ?r2] = [M] \<and>
        sources M = [A, B] \<and> relevanceScore M = 2" by blast
next
  assume h: "i < length (mergeResults parse rs) \<and>
    normalizedUrl (mergeResults parse rs ! i) = normalizeUrl parse (SearchResult.url r)"
  then have eq: "mergeResults parse (rs @ [r])
        = (mergeResults parse rs)[i := absorb (mergeResults parse rs ! i) r]"
    by (intro mergeResults_snoc_present) simp_all
  then show "mergeResults parse (rs @ [r])
        = (mergeResults parse rs)[i := absorb (mergeResults parse rs ! i) r]" .
  from h eq have at: "mergeResults parse (rs @ [r]) ! i = absorb (mergeResults parse rs ! i) r"
    by simp
  {
    assume "source r \<notin> set (sources (mergeResults parse rs ! i))"
    then show "sources (mergeResults parse (rs @ [r]) ! i)
           = sources (mergeResults parse rs ! i) @ [source r]"
      and "relevanceScore (mergeResults parse (rs @ [r]) ! i)
           = number_add (relevanceScore (mergeResults parse rs ! i)) 1"
      by (simp_all only: at absorb_sources absorb_relevanceScore if_False)
  }
  {
    assume "source r \<in> set (sources (mergeResults parse rs ! i))"
    then show "sources (mergeResults parse (rs @ [r]) ! i) = sources (mergeResults parse rs ! i)"
      and "relevanceScore (mergeResults parse (rs @ [r]) ! i)
           = relevanceScore (mergeResults parse rs ! i)"
      by (simp_all only: at absorb_sources absorb_relevanceScore if_True)
  }
next
  assume "\<forall>e \<in> set (mergeResults parse rs).
        normalizedUrl e \<noteq> normalizeUrl parse (SearchResult.url r)"
  then show "mergeResults parse (rs @ [r])
        = mergeResults parse rs @ [fresh (normalizeUrl parse (SearchResult.url r)) r]"
    by (rule mergeResults_snoc_absent)
next
  assume "0 \<le> k \<and> k < 2 ^ 53"
  then have "\<bar>k + 1\<bar> \<le> 2 ^ 53" by simp
  from number_add_of_int [OF this] show "number_add (of_int k) 1 = of_int k + 1" by simp
qed

theorem mergeResults_accumulates_witness:
  "Exa \<noteq> Firecrawl \<and>
   mergeResults new_URL [] = [] \<and>
   mergeResults new_URL ([] @ [observations_example ! 0])
     = [fresh (normalizeUrl new_URL (SearchResult.url (observations_example ! 0)))
          (observations_example ! 0)] \<and>
   0 < length (mergeResults new_URL (take 1 observations_example)) \<and>
   normalizedUrl (mergeResults new_URL (take 1 observations_example) ! 0)
     = normalizeUrl new_URL (SearchResult.url (observations_example ! 1)) \<and>
   source (observations_example ! 1)
     \<notin> set (sources (mergeResults new_URL (take 1 observations_example) ! 0)) \<and>
   sources (mergeResults new_URL (take 1 observations_example @ [observations_example ! 1]) ! 0)
     = [Exa, Firecrawl] \<and>
   relevanceScore
       (mergeResults new_URL (take 1 observations_example @ [observations_example ! 1]) ! 0)
     = 2 \<and>
   0 < length (mergeResults new_URL (take 2 observations_example)) \<and>
   normalizedUrl (mergeResults new_URL (take 2 observations_example) ! 0)
     = normalizeUrl new_URL (SearchResult.url (observations_example ! 2)) \<and>
   source (observations_example ! 2)
     \<in> set (sources (mergeResults new_URL (take 2 observations_example) ! 0)) \<and>
   sources (mergeResults new_URL (take 2 observations_example @ [observations_example ! 2]) ! 0)
     = [Exa, Firecrawl] \<and>
   relevanceScore
       (mergeResults new_URL (take 2 observations_example @ [observations_example ! 2]) ! 0)
     = 2 \<and>
   number_add (of_int 1) 1 = of_int 1 + 1"
proof -
  let ?one = "take 1 observations_example"
  let ?two = "take 2 observations_example"
  let ?r0 = "observations_example ! 0"
  let ?r1 = "observations_example ! 1"
  let ?r2 = "observations_example ! 2"
  have ne: "Exa \<noteq> Firecrawl" by simp
  note T0 = mergeResults_accumulates [where parse = new_URL and rs = "[]" and r = ?r0
      and k = 1]
  from T0 have empty: "mergeResults new_URL [] = []" by (rule conjunct1)
  have "\<forall>e \<in> set (mergeResults new_URL []).
          normalizedUrl e \<noteq> normalizeUrl new_URL (SearchResult.url ?r0)"
    by (simp add: empty)
  with T0 have first: "mergeResults new_URL ([] @ [?r0])
      = mergeResults new_URL [] @ [fresh (normalizeUrl new_URL (SearchResult.url ?r0)) ?r0]"
    by blast
  from T0 have exact: "number_add (of_int 1) 1 = of_int 1 + 1" by simp
  have len1: "0 < length (mergeResults new_URL ?one)" unfolding merge_one_observation by simp
  have key1: "normalizedUrl (mergeResults new_URL ?one ! 0)
      = normalizeUrl new_URL (SearchResult.url ?r1)"
    unfolding merge_one_observation by (simp add: observations_example_def key_a_www)
  have src1: "source ?r1 \<notin> set (sources (mergeResults new_URL ?one ! 0))"
    unfolding merge_one_observation by (simp add: observations_example_def)
  note T1 = mergeResults_accumulates [where parse = new_URL and rs = ?one and r = ?r1
      and i = 0, THEN conjunct2, THEN conjunct2, THEN conjunct1]
  from T1 len1 key1 src1
  have new: "sources (mergeResults new_URL (?one @ [?r1]) ! 0)
        = sources (mergeResults new_URL ?one ! 0) @ [source ?r1] \<and>
      relevanceScore (mergeResults new_URL (?one @ [?r1]) ! 0)
        = number_add (relevanceScore (mergeResults new_URL ?one ! 0)) 1"
    by blast
  have s1: "sources (mergeResults new_URL ?one ! 0) @ [source ?r1] = [Exa, Firecrawl]"
    unfolding merge_one_observation by (simp add: observations_example_def)
  have n1: "number_add (relevanceScore (mergeResults new_URL ?one ! 0)) 1 = 2"
    unfolding merge_one_observation by (simp add: number_add_1_1)
  from new s1 have new_sources:
    "sources (mergeResults new_URL (?one @ [?r1]) ! 0) = [Exa, Firecrawl]" by simp
  from new n1 have new_score:
    "relevanceScore (mergeResults new_URL (?one @ [?r1]) ! 0) = 2" by simp
  have len2: "0 < length (mergeResults new_URL ?two)" unfolding merge_two_observations by simp
  have key2: "normalizedUrl (mergeResults new_URL ?two ! 0)
      = normalizeUrl new_URL (SearchResult.url ?r2)"
    unfolding merge_two_observations by (simp add: observations_example_def key_a_http)
  have src2: "source ?r2 \<in> set (sources (mergeResults new_URL ?two ! 0))"
    unfolding merge_two_observations by (simp add: observations_example_def)
  note T2 = mergeResults_accumulates [where parse = new_URL and rs = ?two and r = ?r2
      and i = 0, THEN conjunct2, THEN conjunct2, THEN conjunct1]
  from T2 len2 key2 src2
  have old: "sources (mergeResults new_URL (?two @ [?r2]) ! 0)
        = sources (mergeResults new_URL ?two ! 0) \<and>
      relevanceScore (mergeResults new_URL (?two @ [?r2]) ! 0)
        = relevanceScore (mergeResults new_URL ?two ! 0)"
    by blast
  then have old_sources:
    "sources (mergeResults new_URL (?two @ [?r2]) ! 0) = [Exa, Firecrawl]"
    unfolding merge_two_observations by simp
  from old have old_score:
    "relevanceScore (mergeResults new_URL (?two @ [?r2]) ! 0) = 2"
    unfolding merge_two_observations by simp
  from first empty have first': "mergeResults new_URL ([] @ [?r0])
      = [fresh (normalizeUrl new_URL (SearchResult.url ?r0)) ?r0]"
    by (simp only: append_Nil)
  show ?thesis
    by (intro conjI) (rule ne, rule empty, rule first', rule len1, rule key1, rule src1,
        rule new_sources, rule new_score, rule len2, rule key2, rule src2, rule old_sources,
        rule old_score, rule exact)
qed

text \<open>
  C2, the score at the limit of the whole numbers that a double holds. A first
  observation with the score \<open>2 ^ 53 - 1\<close> makes a record with the score
  \<open>2 ^ 53 = 9007199254740992\<close>; a second observation of the same page by another provider
  is appended to the sources, and the score stays \<open>2 ^ 53\<close>: the sum \<open>2 ^ 53 + 1\<close> is no
  double, and the nearest double with an even significand is \<open>2 ^ 53\<close>. The score has
  not gone up by 1.
\<close>

theorem mergeResults_score_not_plus_one:
  "mergeResults new_URL (take 1 large_score_example)
   = [\<lparr>MergedResult.url = ''https://a.com/x'', normalizedUrl = ''a.com/x'', title = ''T'',
       snippet = ''s'', content = None, publishedDate = None, sources = [Exa],
       relevanceScore = 9007199254740992\<rparr>] \<and>
   mergeResults new_URL large_score_example
   = [\<lparr>MergedResult.url = ''https://a.com/x'', normalizedUrl = ''a.com/x'', title = ''T'',
       snippet = ''longer'', content = None, publishedDate = None, sources = [Exa, Firecrawl],
       relevanceScore = 9007199254740992\<rparr>] \<and>
   relevanceScore (hd (mergeResults new_URL large_score_example))
     \<noteq> relevanceScore (hd (mergeResults new_URL (take 1 large_score_example))) + 1"
proof -
  note ex = merge_large_scores
  from ex have a: "mergeResults new_URL (take 1 large_score_example)
   = [\<lparr>MergedResult.url = ''https://a.com/x'', normalizedUrl = ''a.com/x'', title = ''T'',
       snippet = ''s'', content = None, publishedDate = None, sources = [Exa],
       relevanceScore = 9007199254740992\<rparr>]" by (rule conjunct1)
  from ex have b: "mergeResults new_URL large_score_example
   = [\<lparr>MergedResult.url = ''https://a.com/x'', normalizedUrl = ''a.com/x'', title = ''T'',
       snippet = ''longer'', content = None, publishedDate = None, sources = [Exa, Firecrawl],
       relevanceScore = 9007199254740992\<rparr>]" by (rule conjunct2)
  have c: "relevanceScore (hd (mergeResults new_URL large_score_example))
     \<noteq> relevanceScore (hd (mergeResults new_URL (take 1 large_score_example))) + 1"
    unfolding a b by simp
  from a b c show ?thesis by (intro conjI)
qed

section \<open>Properties of URL normalisation\<close>

lemma toLowerChar_idem: "toLowerChar (toLowerChar c) = toLowerChar c"
proof -
  have "of_char (char_of (of_char c + 32 :: nat)) = (of_char c + 32 :: nat)"
    if "(of_char c :: nat) \<le> 222"
    using that by simp
  then show ?thesis
    by (auto simp: toLowerChar_def Let_def)
qed

lemma toLowerCase_idem: "toLowerCase (toLowerCase s) = toLowerCase s"
  by (simp add: toLowerCase_def toLowerChar_idem)

lemma toLowerChar_slash: "toLowerChar c = CHR ''/'' \<longleftrightarrow> c = CHR ''/''"
proof
  assume a: "toLowerChar c = CHR ''/''"
  show "c = CHR ''/''"
  proof (cases "(65 \<le> (of_char c :: nat) \<and> (of_char c :: nat) \<le> 90) \<or>
      (192 \<le> (of_char c :: nat) \<and> (of_char c :: nat) \<le> 222 \<and> (of_char c :: nat) \<noteq> 215)")
    case True
    with a have "char_of (of_char c + 32 :: nat) = CHR ''/''"
      by (simp add: toLowerChar_def Let_def)
    then have "(of_char (char_of (of_char c + 32 :: nat)) :: nat) = of_char (CHR ''/'')"
      by simp
    with True show ?thesis by auto
  next
    case False
    with a show ?thesis by (simp add: toLowerChar_def Let_def)
  qed
next
  assume "c = CHR ''/''"
  then show "toLowerChar c = CHR ''/''" by (simp add: toLowerChar_def)
qed

lemma stripTrailingSlashes_id:
  "s = [] \<or> last s \<noteq> CHR ''/'' \<Longrightarrow> stripTrailingSlashes s = s"
  by (cases s rule: rev_cases) (auto simp: stripTrailingSlashes_def)

lemma stripTrailingSlashes_last:
  "stripTrailingSlashes s = [] \<or> last (stripTrailingSlashes s) \<noteq> CHR ''/''"
proof -
  have "dropWhile (\<lambda>c. c = CHR ''/'') xs = [] \<or> hd (dropWhile (\<lambda>c. c = CHR ''/'') xs) \<noteq> CHR ''/''" for xs
    using hd_dropWhile [of "\<lambda>c. c = CHR ''/''" xs] by auto
  then show ?thesis
    unfolding stripTrailingSlashes_def by (metis last_rev rev_is_Nil_conv)
qed

lemma set_stripPrefix: "set (stripPrefix p s) \<subseteq> set s"
  by (auto simp: stripPrefix_def dest: in_set_dropD)

lemma key_no_trailing_slash:
  assumes "CHR ''/'' \<notin> set h"
  shows "toLowerCase (stripPrefix ''www.'' h @ stripTrailingSlashes p) = [] \<or>
         last (toLowerCase (stripPrefix ''www.'' h @ stripTrailingSlashes p)) \<noteq> CHR ''/''"
proof (cases "stripTrailingSlashes p = []")
  case True
  let ?h = "stripPrefix ''www.'' h"
  from assms have no: "CHR ''/'' \<notin> set ?h" using set_stripPrefix by fastforce
  show ?thesis
  proof (cases "?h = []")
    case True
    with \<open>stripTrailingSlashes p = []\<close> show ?thesis by (simp add: toLowerCase_def)
  next
    case False
    then have "last ?h \<in> set ?h" by simp
    with no have "last ?h \<noteq> CHR ''/''" by metis
    with False \<open>stripTrailingSlashes p = []\<close> show ?thesis
      by (simp add: toLowerCase_def last_map toLowerChar_slash)
  qed
next
  case False
  with stripTrailingSlashes_last [of p] have "last (stripTrailingSlashes p) \<noteq> CHR ''/''" by simp
  with False show ?thesis
    by (simp add: toLowerCase_def last_map toLowerChar_slash)
qed

lemma key_example: "normalizeUrl new_URL ''https://www.Example.com/a/'' = ''example.com/a''"
  by code_simp

lemma key_example_bare: "normalizeUrl new_URL ''example.com/a'' = ''example.com/a''"
  by code_simp

text \<open>
  C5, as the code has it. \<open>normalizeUrl\<close> applied to a key gives the key back whenever the
  address parses (with a hostname free of slashes, as every hostname is), and its key
  does not parse as a URL again and begins with none of \<open>http://\<close>, \<open>https://\<close> and
  \<open>www.\<close>; and \<open>normalizeUrl("https://www.Example.com/a/")\<close> equals
  \<open>normalizeUrl("example.com/a")\<close>. This holds whatever the URL constructor answers
  elsewhere.
\<close>

theorem normalizeUrl_idempotent_on_plain_keys:
  "(parse u = Some v \<and> CHR ''/'' \<notin> set (hostname v) \<and>
    parse (normalizeUrl parse u) = None \<and>
    \<not> startsWith (normalizeUrl parse u) ''http://'' \<and>
    \<not> startsWith (normalizeUrl parse u) ''https://'' \<and>
    \<not> startsWith (normalizeUrl parse u) ''www.''
    \<longrightarrow> normalizeUrl parse (normalizeUrl parse u) = normalizeUrl parse u) \<and>
   normalizeUrl new_URL ''https://www.Example.com/a/'' = normalizeUrl new_URL ''example.com/a''"
proof (intro conjI impI)
  assume h: "parse u = Some v \<and> CHR ''/'' \<notin> set (hostname v) \<and>
    parse (normalizeUrl parse u) = None \<and>
    \<not> startsWith (normalizeUrl parse u) ''http://'' \<and>
    \<not> startsWith (normalizeUrl parse u) ''https://'' \<and>
    \<not> startsWith (normalizeUrl parse u) ''www.''"
  define k where "k = normalizeUrl parse u"
  from h have pu: "parse u = Some v" and host: "CHR ''/'' \<notin> set (hostname v)"
    and pk: "parse k = None" and pre: "\<not> startsWith k ''http://''"
      "\<not> startsWith k ''https://''" "\<not> startsWith k ''www.''"
    by (simp_all add: k_def)
  have k: "k = toLowerCase (stripPrefix ''www.'' (hostname v) @ stripTrailingSlashes (pathname v))"
    by (simp add: k_def normalizeUrl_def pu)
  then have low: "toLowerCase k = k" by (simp add: toLowerCase_idem)
  have tail: "k = [] \<or> last k \<noteq> CHR ''/''"
    unfolding k by (rule key_no_trailing_slash [OF host])
  have "normalizeUrl parse k
      = stripTrailingSlashes (stripPrefix ''www.'' (stripHttpScheme (toLowerCase k)))"
    by (simp add: normalizeUrl_def pk)
  also have "\<dots> = stripTrailingSlashes k"
    by (simp add: low stripHttpScheme_def stripPrefix_def pre)
  also from tail have "\<dots> = k" by (rule stripTrailingSlashes_id)
  finally show "normalizeUrl parse (normalizeUrl parse u) = normalizeUrl parse u"
    by (simp add: k_def)
next
  show "normalizeUrl new_URL ''https://www.Example.com/a/'' = normalizeUrl new_URL ''example.com/a''"
    by (simp add: key_example key_example_bare)
qed

lemma key_www_www: "normalizeUrl new_URL ''https://www.www.example.com/'' = ''www.example.com''"
  by code_simp

lemma key_www: "normalizeUrl new_URL ''www.example.com'' = ''example.com''"
  by code_simp

text \<open>
  C5 as stated fails: the valid address \<open>https://www.www.example.com/\<close> has the key
  \<open>www.example.com\<close>, which is no URL, so that normalising it again takes the \<open>catch\<close>
  branch and strips a second \<open>www.\<close>.
\<close>

theorem normalizeUrl_not_idempotent:
  "normalizeUrl new_URL (normalizeUrl new_URL ''https://www.www.example.com/'')
     \<noteq> normalizeUrl new_URL ''https://www.www.example.com/''"
  by (simp add: key_www_www key_www)

lemma parsed_example:
  "new_URL ''https://www.Example.com/a/'' = Some \<lparr>hostname = ''www.example.com'', pathname = ''/a/''\<rparr>"
  by code_simp

lemma unparsed_example: "new_URL ''example.com/a'' = None"
  by code_simp

theorem normalizeUrl_idempotent_on_plain_keys_witness:
  "new_URL ''https://www.Example.com/a/''
     = Some \<lparr>hostname = ''www.example.com'', pathname = ''/a/''\<rparr> \<and>
   CHR ''/'' \<notin> set ''www.example.com'' \<and>
   new_URL (normalizeUrl new_URL ''https://www.Example.com/a/'') = None \<and>
   \<not> startsWith (normalizeUrl new_URL ''https://www.Example.com/a/'') ''http://'' \<and>
   \<not> startsWith (normalizeUrl new_URL ''https://www.Example.com/a/'') ''https://'' \<and>
   \<not> startsWith (normalizeUrl new_URL ''https://www.Example.com/a/'') ''www.'' \<and>
   normalizeUrl new_URL (normalizeUrl new_URL ''https://www.Example.com/a/'')
     = normalizeUrl new_URL ''https://www.Example.com/a/''"
proof -
  have hyp: "new_URL ''https://www.Example.com/a/''
       = Some \<lparr>hostname = ''www.example.com'', pathname = ''/a/''\<rparr> \<and>
     CHR ''/'' \<notin> set (hostname \<lparr>hostname = ''www.example.com'', pathname = ''/a/''\<rparr>) \<and>
     new_URL (normalizeUrl new_URL ''https://www.Example.com/a/'') = None \<and>
     \<not> startsWith (normalizeUrl new_URL ''https://www.Example.com/a/'') ''http://'' \<and>
     \<not> startsWith (normalizeUrl new_URL ''https://www.Example.com/a/'') ''https://'' \<and>
     \<not> startsWith (normalizeUrl new_URL ''https://www.Example.com/a/'') ''www.''"
    by (simp add: parsed_example key_example unparsed_example startsWith_def)
  from normalizeUrl_idempotent_on_plain_keys [THEN conjunct1, rule_format, OF hyp]
  have "normalizeUrl new_URL (normalizeUrl new_URL ''https://www.Example.com/a/'')
     = normalizeUrl new_URL ''https://www.Example.com/a/''" .
  with hyp show ?thesis by simp
qed

lemma key_with_query: "normalizeUrl new_URL ''example.com/a?x=1'' = ''example.com/a?x=1''"
  by code_simp

text \<open>
  C4. The key is to hold no query string, also for a string that is no URL. In the \<open>catch\<close>
  branch of \<open>normalizeUrl\<close> it does: \<open>example.com/a?x=1\<close> has no scheme, the constructor
  throws, and the string transform leaves the query in the key, which then differs
  from the key of \<open>example.com/a\<close>.
\<close>

theorem normalizeUrl_fallback_keeps_query:
  "normalizeUrl new_URL ''example.com/a?x=1'' = ''example.com/a?x=1'' \<and>
   normalizeUrl new_URL ''example.com/a'' = ''example.com/a'' \<and>
   normalizeUrl new_URL ''example.com/a?x=1'' \<noteq> normalizeUrl new_URL ''example.com/a''"
  by (simp add: key_with_query key_example_bare)

section \<open>Properties of ranking\<close>

lemma compareRelevance_le: "compareRelevance a b \<le> 0 \<longleftrightarrow> rankKey a \<le> rankKey b"
  by (auto simp: compareRelevance_def rankKey_def)

lemma sortInsert_insort: "sortInsert compareRelevance x ys = insort_key rankKey x ys"
  by (induction ys) (simp_all add: compareRelevance_le)

lemma rankByRelevance_sort_key: "rankByRelevance rs = sort_key rankKey rs"
proof -
  have "foldr (sortInsert compareRelevance) xs ys = foldr (insort_key rankKey) xs ys" for xs ys
    by (induction xs) (simp_all add: sortInsert_insort)
  then show ?thesis
    by (simp add: rankByRelevance_def Array_sort_def sort_key_def)
qed

lemma rankKey_eq:
  "rankKey r = (- int n, - s) \<longleftrightarrow> length (sources r) = n \<and> relevanceScore r = s"
  by (auto simp: rankKey_def)

text \<open>
  C3. \<open>rankByRelevance\<close> returns a stable sort of its input by source count, descending,
  then by relevance score, descending: the output is a permutation of the input; of two
  entries, one behind the other, the second has fewer sources or as many and no higher
  score; entries with the same source count and score keep the order they came in; and
  an entry with strictly more sources than another stands before it.
\<close>

theorem rankByRelevance_stable_sort:
  "mset (rankByRelevance rs) = mset rs \<and>
   sorted_wrt (\<lambda>a b. length (sources b) < length (sources a) \<or>
                 (length (sources b) = length (sources a) \<and> relevanceScore b \<le> relevanceScore a))
     (rankByRelevance rs) \<and>
   (\<forall>n s. filter (\<lambda>r. length (sources r) = n \<and> relevanceScore r = s) (rankByRelevance rs)
        = filter (\<lambda>r. length (sources r) = n \<and> relevanceScore r = s) rs) \<and>
   (\<forall>i j. i < length rs \<and> j < length rs \<and>
        length (sources (rankByRelevance rs ! j)) < length (sources (rankByRelevance rs ! i))
        \<longrightarrow> i < j)"
proof -
  let ?out = "rankByRelevance rs"
  let ?ord = "\<lambda>a b. length (sources b) < length (sources a) \<or>
                 (length (sources b) = length (sources a) \<and> relevanceScore b \<le> relevanceScore a)"
  have out: "?out = sort_key rankKey rs" by (rule rankByRelevance_sort_key)
  have perm: "mset ?out = mset rs" by (simp add: out)
  have "sorted (map rankKey ?out)" by (simp add: out)
  then have "sorted_wrt (\<lambda>a b. rankKey a \<le> rankKey b) ?out"
    by (simp add: sorted_map)
  moreover have "rankKey a \<le> rankKey b \<longleftrightarrow> ?ord a b" for a b
    by (auto simp: rankKey_def)
  ultimately have sorted: "sorted_wrt ?ord ?out" by simp
  have stable: "filter (\<lambda>r. length (sources r) = n \<and> relevanceScore r = s) ?out
        = filter (\<lambda>r. length (sources r) = n \<and> relevanceScore r = s) rs" for n s
    using sort_key_stable [of rankKey "(- int n, - s)" rs]
    by (simp add: out rankKey_eq)
  have len: "length ?out = length rs" by (simp add: out)
  have order: "i < j" if "i < length rs" "j < length rs"
      "length (sources (?out ! j)) < length (sources (?out ! i))" for i j
  proof (rule ccontr)
    assume "\<not> i < j"
    then have "j = i \<or> j < i" by auto
    then show False
    proof
      assume "j = i" with that show False by simp
    next
      assume "j < i"
      moreover from that len have "i < length ?out" by simp
      ultimately have "?ord (?out ! j) (?out ! i)"
        using sorted by (rule sorted_wrt_nth_less [rotated])
      with that show False by auto
    qed
  qed
  from perm sorted stable order show ?thesis by blast
qed

lemma ranking_example_ranked:
  "rankByRelevance ranking_example
     = [merged_example ''r2'' [Exa, Firecrawl] 2, merged_example ''r3'' [Firecrawl, Perplexity] 2,
        merged_example ''r1'' [Exa] 1, merged_example ''r4'' [Perplexity] 1]"
  by (simp add: ranking_example_def merged_example_def rankByRelevance_def Array_sort_def
      compareRelevance_def)

theorem rankByRelevance_stable_sort_witness:
  "rankByRelevance ranking_example
     = [merged_example ''r2'' [Exa, Firecrawl] 2, merged_example ''r3'' [Firecrawl, Perplexity] 2,
        merged_example ''r1'' [Exa] 1, merged_example ''r4'' [Perplexity] 1] \<and>
   mset (rankByRelevance ranking_example) = mset ranking_example \<and>
   (0::nat) < length ranking_example \<and> (2::nat) < length ranking_example \<and>
   length (sources (rankByRelevance ranking_example ! 2))
     < length (sources (rankByRelevance ranking_example ! 0)) \<and>
   (0::nat) < 2"
proof -
  have perm: "mset (rankByRelevance ranking_example) = mset ranking_example"
    by (rule rankByRelevance_stable_sort [of ranking_example, THEN conjunct1])
  have len: "(0::nat) < length ranking_example" "(2::nat) < length ranking_example"
    by (simp_all add: ranking_example_def)
  have more: "length (sources (rankByRelevance ranking_example ! 2))
      < length (sources (rankByRelevance ranking_example ! 0))"
    unfolding ranking_example_ranked by (simp add: merged_example_def)
  show ?thesis
    by (intro conjI) (rule ranking_example_ranked, rule perm, rule len(1), rule len(2), rule more, simp)
qed

section \<open>Properties of the parallel execution engine\<close>

lemma safeCall_cases:
  "(\<exists>t v. c = Resolves t v \<and> t \<le> ms \<and> safeCall c ms = Resolves t v) \<or>
   (\<not> in_time c ms \<and> (\<exists>t e. safeCall c ms = Rejects t e))"
  by (cases c) (auto simp: safeCall_def race_def)

lemma slot_simps [simp]:
  "slot (Resolves t v) = Resolves t (Some v)"
  "slot (Rejects t e) = Resolves t None"
  "slot Pending = Pending"
  by (simp_all add: slot_def)

lemma mset_pushes_in_order: "mset (pushes_in_order ps) = mset (map snd ps)"
  by (simp add: pushes_in_order_def)

lemma length_filter_mset_cong:
  assumes "mset xs = mset ys"
  shows "length (filter P xs) = length (filter P ys)"
  by (metis assms mset_filter size_mset)

lemma length_filter_pushes:
  "length (filter P (pushes_in_order ps)) = length (filter P (map snd ps))"
  by (rule length_filter_mset_cong) (rule mset_pushes_in_order)

lemma length_pushes_in_order [simp]: "length (pushes_in_order ps) = length ps"
  by (simp add: pushes_in_order_def)

lemma guarded_branch:
  "\<exists>t x d. slot (safeCall c ms) = Resolves t x \<and>
     (\<forall>s v. c = Resolves s v \<and> s \<le> ms \<longrightarrow> x = Some v) \<and>
     (\<not> in_time c ms \<longrightarrow> x = None) \<and>
     (in_time c ms \<longrightarrow> pushed name (safeCall c ms) = []) \<and>
     (\<not> in_time c ms \<longrightarrow>
        map snd (pushed name (safeCall c ms)) = [''['' @ name @ ''] '' @ d])"
  by (cases c) (auto simp: safeCall_def race_def)

text \<open>
  C1. Whatever the three provider calls do (fulfil, reject, or settle late or never),
  \<open>parallelServices\<close> is fulfilled and never rejected. A provider that is fulfilled
  in time has its value in its slot, unchanged; every other provider has
  \<open>null\<close> in its slot. For each provider the returned \<open>errors\<close> hold exactly one message
  that begins with its bracketed name when it failed and none when it did not, and they
  hold nothing else; so it is with no, one, two or three failures.
\<close>

theorem parallelServices_degrades:
  "\<exists>t r. parallelServices e f p = Resolves t r \<and>
     (\<forall>s v. e = Resolves s v \<and> s \<le> 120000 \<longrightarrow> ParallelResults.exa r = Some v) \<and>
     (\<forall>s v. f = Resolves s v \<and> s \<le> 120000 \<longrightarrow> ParallelResults.firecrawl r = Some v) \<and>
     (\<forall>s v. p = Resolves s v \<and> s \<le> 180000 \<longrightarrow> ParallelResults.perplexity r = Some v) \<and>
     (\<not> in_time e 120000 \<longrightarrow> ParallelResults.exa r = None) \<and>
     (\<not> in_time f 120000 \<longrightarrow> ParallelResults.firecrawl r = None) \<and>
     (\<not> in_time p 180000 \<longrightarrow> ParallelResults.perplexity r = None) \<and>
     length (filter (\<lambda>m. startsWith m ''[Exa] '') (ParallelResults.errors r))
       = (if in_time e 120000 then 0 else 1) \<and>
     length (filter (\<lambda>m. startsWith m ''[Firecrawl] '') (ParallelResults.errors r))
       = (if in_time f 120000 then 0 else 1) \<and>
     length (filter (\<lambda>m. startsWith m ''[Perplexity] '') (ParallelResults.errors r))
       = (if in_time p 180000 then 0 else 1) \<and>
     length (ParallelResults.errors r)
       = (if in_time e 120000 then 0 else 1) + (if in_time f 120000 then 0 else 1)
         + (if in_time p 180000 then 0 else 1)"
proof -
  let ?E = "safeCall e 120000" and ?F = "safeCall f 120000" and ?P = "safeCall p 180000"
  obtain te xe de where e: "slot ?E = Resolves te xe"
      "\<forall>s v. e = Resolves s v \<and> s \<le> 120000 \<longrightarrow> xe = Some v"
      "\<not> in_time e 120000 \<longrightarrow> xe = None"
      "map snd (pushed ''Exa'' ?E) = (if in_time e 120000 then [] else [''[Exa] '' @ de])"
    using guarded_branch [of e 120000 "''Exa''"] by (cases "in_time e 120000") auto
  obtain tf xf df where f: "slot ?F = Resolves tf xf"
      "\<forall>s v. f = Resolves s v \<and> s \<le> 120000 \<longrightarrow> xf = Some v"
      "\<not> in_time f 120000 \<longrightarrow> xf = None"
      "map snd (pushed ''Firecrawl'' ?F)
         = (if in_time f 120000 then [] else [''[Firecrawl] '' @ df])"
    using guarded_branch [of f 120000 "''Firecrawl''"] by (cases "in_time f 120000") auto
  obtain tp xp dp where p: "slot ?P = Resolves tp xp"
      "\<forall>s v. p = Resolves s v \<and> s \<le> 180000 \<longrightarrow> xp = Some v"
      "\<not> in_time p 180000 \<longrightarrow> xp = None"
      "map snd (pushed ''Perplexity'' ?P)
         = (if in_time p 180000 then [] else [''[Perplexity] '' @ dp])"
    using guarded_branch [of p 180000 "''Perplexity''"] by (cases "in_time p 180000") auto
  let ?errs = "pushes_in_order (pushed ''Exa'' ?E @ pushed ''Firecrawl'' ?F @ pushed ''Perplexity'' ?P)"
  have run: "parallelServices e f p = Resolves (max te (max tf tp))
      \<lparr>ParallelResults.exa = xe, firecrawl = xf, perplexity = xp, errors = ?errs\<rparr>"
    by (simp add: parallelServices_def Let_def e(1) f(1) p(1))
  have count: "length (filter P ?errs) =
      length (filter P (map snd (pushed ''Exa'' ?E))) +
      length (filter P (map snd (pushed ''Firecrawl'' ?F))) +
      length (filter P (map snd (pushed ''Perplexity'' ?P)))" for P
    by (simp add: length_filter_pushes)
  have total: "length ?errs =
      length (map snd (pushed ''Exa'' ?E)) + length (map snd (pushed ''Firecrawl'' ?F)) +
      length (map snd (pushed ''Perplexity'' ?P))"
    by simp
  have c1: "length (filter (\<lambda>m. startsWith m ''[Exa] '') ?errs) = (if in_time e 120000 then 0 else 1)"
    unfolding count e(4) f(4) p(4) by (simp add: startsWith_def)
  have c2: "length (filter (\<lambda>m. startsWith m ''[Firecrawl] '') ?errs)
      = (if in_time f 120000 then 0 else 1)"
    unfolding count e(4) f(4) p(4) by (simp add: startsWith_def)
  have c3: "length (filter (\<lambda>m. startsWith m ''[Perplexity] '') ?errs)
      = (if in_time p 180000 then 0 else 1)"
    unfolding count e(4) f(4) p(4) by (simp add: startsWith_def)
  have c4: "length ?errs = (if in_time e 120000 then 0 else 1) + (if in_time f 120000 then 0 else 1)
         + (if in_time p 180000 then 0 else 1)"
    unfolding total e(4) f(4) p(4) by simp
  show ?thesis
    unfolding run using e(2,3) f(2,3) p(2,3) c1 c2 c3 c4 by simp
qed

lemma show_nat_120000: "show_nat 120000 = ''120000''"
  by (simp add: show_nat.simps)

lemma show_nat_180000: "show_nat 180000 = ''180000''"
  by (simp add: show_nat.simps)

lemma parallel_example:
  "parallelServices (Resolves 100 ''ok'') (Rejects 50 (Error ''boom'') :: nat promise)
      (Pending :: bool promise)
   = Resolves 180000 \<lparr>ParallelResults.exa = Some ''ok'', firecrawl = None, perplexity = None,
       errors = [''[Firecrawl] boom'', ''[Perplexity] Timeout after 180000ms'']\<rparr>"
  by (simp add: parallelServices_def safeCall_def race_def pushes_in_order_def
      show_nat_120000 show_nat_180000)

theorem parallelServices_degrades_witness:
  "parallelServices (Resolves 100 ''ok'') (Rejects 50 (Error ''boom'') :: nat promise)
      (Pending :: bool promise)
   = Resolves 180000 \<lparr>ParallelResults.exa = Some ''ok'', firecrawl = None, perplexity = None,
       errors = [''[Firecrawl] boom'', ''[Perplexity] Timeout after 180000ms'']\<rparr> \<and>
   in_time (Resolves 100 ''ok'') 120000 \<and>
   \<not> in_time (Rejects 50 (Error ''boom'') :: nat promise) 120000 \<and>
   \<not> in_time (Pending :: bool promise) 180000"
  using parallelServices_degrades [of "Resolves 100 ''ok''"
      "Rejects 50 (Error ''boom'') :: nat promise" "Pending :: bool promise"]
  by (simp add: parallel_example)

section \<open>Properties of batch processing\<close>

lemma Promise_all_slots:
  "(\<exists>t. Promise_all (map slot ps) = Resolves t (map fulfilled ps)) \<or>
   (Promise_all (map slot ps) = Pending \<and> Pending \<in> set ps)"
proof (induction ps)
  case Nil
  then show ?case by simp
next
  case (Cons p ps)
  then show ?case by (cases p) auto
qed

lemma set_slice: "set (slice xs a b) \<subseteq> set xs"
  unfolding slice_def Let_def
  by (meson set_take_subset set_drop_subset subset_trans)

lemma slice_batch:
  assumes "0 \<le> i" "1 \<le> b"
  shows "slice xs i (i + b) = take (nat b) (drop (nat i) xs)"
proof -
  have "min (nat (i + b)) (length xs) - min (nat i) (length xs) = min (nat b) (length xs - nat i)"
    using assms by (auto simp: min_def nat_add_distrib)
  then show ?thesis using assms by (simp add: slice_def slice_index_def Let_def min_def)
qed

lemma batchLoop_terminates:
  assumes "1 \<le> b"
  shows "\<exists>y. batchLoop items b f i now rs es = Some y"
proof (induction "nat (int (length items) - i)" arbitrary: i now rs es rule: less_induct)
  case less
  show ?case
  proof (cases "i < int (length items)")
    case False
    then show ?thesis by (subst batchLoop.simps) simp
  next
    case True
    with assms have "nat (int (length items) - (i + b)) < nat (int (length items) - i)"
      by linarith
    from less [OF this] show ?thesis
      by (subst batchLoop.simps) (simp add: True split: promise.splits)
  qed
qed

lemma Promise_all_slots_not_rejected: "Promise_all (map slot ps) \<noteq> Rejects t e"
  using Promise_all_slots [of ps] by auto

lemma batchLoop_never_leaves:
  fixes f :: "'a \<Rightarrow> 'r promise"
  assumes "batchLoop items b f i now rs es = Some y"
  shows "b \<le> 0 \<and> i \<le> 0 \<and> items \<noteq> [] \<longrightarrow> y = Pending \<and> Pending \<in> f ` set items"
proof (rule batchLoop.raw_induct
    [where P = "\<lambda>items b f i now rs es y. b \<le> 0 \<and> i \<le> 0 \<and> items \<noteq> [] \<longrightarrow> y = Pending \<and> Pending \<in> f ` set items",
     OF _ assms])
  fix loop :: "'a list \<Rightarrow> int \<Rightarrow> ('a \<Rightarrow> 'r promise) \<Rightarrow> int \<Rightarrow> nat \<Rightarrow> 'r option list \<Rightarrow> string list
     \<Rightarrow> 'r BatchResults promise option"
  fix items b and f :: "'a \<Rightarrow> 'r promise" and i now rs es y
  assume IH: "\<And>items b f i now rs es y. loop items b f i now rs es = Some y \<Longrightarrow>
      b \<le> 0 \<and> i \<le> 0 \<and> items \<noteq> [] \<longrightarrow> y = Pending \<and> Pending \<in> f ` set items"
  assume step: "(if i < int (length items)
      then case Promise_all (map slot (map f (slice items i (i + b)))) of
           Resolves t batchResults \<Rightarrow>
             loop items b f (i + b) (now + t) (rs @ batchResults)
              (es @ pushes_in_order (batchPushed i (map f (slice items i (i + b)))))
           | Rejects t e \<Rightarrow> Some (Rejects (now + t) e)
           | Pending \<Rightarrow> Some Pending
      else Some (Resolves now \<lparr>BatchResults.results = rs, errors = es\<rparr>)) = Some y"
  show "b \<le> 0 \<and> i \<le> 0 \<and> items \<noteq> [] \<longrightarrow> y = Pending \<and> Pending \<in> f ` set items"
  proof
    assume h: "b \<le> 0 \<and> i \<le> 0 \<and> items \<noteq> []"
    then have lt: "i < int (length items)" by (cases items) auto
    show "y = Pending \<and> Pending \<in> f ` set items"
    proof (cases "Promise_all (map slot (map f (slice items i (i + b))))")
      case (Resolves t vs)
      with step lt have "loop items b f (i + b) (now + t) (rs @ vs)
          (es @ pushes_in_order (batchPushed i (map f (slice items i (i + b))))) = Some y"
        by simp
      from IH [OF this] h show ?thesis by simp
    next
      case (Rejects t e)
      then show ?thesis using Promise_all_slots_not_rejected by blast
    next
      case Pending
      then have "Pending \<in> set (map f (slice items i (i + b)))"
        using Promise_all_slots [of "map f (slice items i (i + b))"] by auto
      then have "Pending \<in> f ` set items" using set_slice [of items i "i + b"] by auto
      with Pending step lt show ?thesis by simp
    qed
  qed
qed

lemma batchLoop_runs_forever:
  assumes "b \<le> 0" "items \<noteq> []" "\<forall>x \<in> set items. f x \<noteq> Pending"
  shows "batchLoop items b f 0 now rs es = None"
proof (rule ccontr)
  assume "batchLoop items b f 0 now rs es \<noteq> None"
  then obtain y where "batchLoop items b f 0 now rs es = Some y" by auto
  from batchLoop_never_leaves [OF this] assms show False by auto
qed

lemma enumerate_take_drop:
  "enumerate k xs = enumerate k (take n xs) @ enumerate (k + n) (drop n xs)"
proof (cases "n \<le> length xs")
  case True
  then have "length (take n xs) = n" by simp
  then show ?thesis
    using enumerate_append_eq [of k "take n xs" "drop n xs"] by simp
next
  case False
  then show ?thesis by simp
qed

lemma batchPushed_enumerate:
  "concat (map (\<lambda>(idx, p). pushed_item (int k + int idx) p) (enumerate n (map f xs)))
     = concat (map (\<lambda>(j, x). pushed_item (int j) (f x)) (enumerate (k + n) xs))"
  by (induction xs arbitrary: n) (simp_all add: add.assoc)

lemma batchPushed_items:
  "batchPushed (int k) (map f xs)
     = concat (map (\<lambda>(j, x). pushed_item (int j) (f x)) (enumerate k xs))"
  using batchPushed_enumerate [of k 0 f xs] by (simp add: batchPushed_def)

lemma drop_batch: "drop k xs = take n (drop k xs) @ drop (k + n) xs"
  by (metis add.commute append_take_drop_id drop_drop)

lemma batchLoop_results:
  assumes "1 \<le> b" "\<forall>x \<in> set items. f x \<noteq> Pending"
  shows "\<exists>t es'. batchLoop items b f (int k) now rs es
           = Some (Resolves t \<lparr>BatchResults.results = rs @ map (\<lambda>x. fulfilled (f x)) (drop k items),
                                errors = es @ es'\<rparr>) \<and>
         mset es' = mset (map snd (concat (map (\<lambda>(j, x). pushed_item (int j) (f x))
                                     (enumerate k (drop k items)))))"
proof (induction "length items - k" arbitrary: k now rs es rule: less_induct)
  case less
  show ?case
  proof (cases "k < length items")
    case False
    then show ?thesis by (subst batchLoop.simps) simp
  next
    case True
    define batch where "batch = take (nat b) (drop k items)"
    define k' where "k' = k + nat b"
    define rs1 where "rs1 = map fulfilled (map f batch)"
    define es1 where "es1 = pushes_in_order (batchPushed (int k) (map f batch))"
    have sl: "slice items (int k) (int k + b) = batch"
      using slice_batch [of "int k" b items] assms(1) by (simp add: batch_def)
    have "set batch \<subseteq> set items"
      unfolding batch_def by (meson set_take_subset set_drop_subset subset_trans)
    with assms(2) have "Pending \<notin> set (map f batch)"
      by (metis imageE list.set_map subsetD)
    then obtain t where all: "Promise_all (map slot (map f batch)) = Resolves t rs1"
      using Promise_all_slots [of "map f batch"] unfolding rs1_def by auto
    have k': "int k + b = int k'" using assms(1) by (simp add: k'_def)
    have "length items - k' < length items - k"
      using True assms(1) unfolding k'_def by linarith
    from less [OF this, of "now + t" "rs @ rs1" "es @ es1"]
    obtain t' es' where rec: "batchLoop items b f (int k') (now + t) (rs @ rs1) (es @ es1)
        = Some (Resolves t'
            \<lparr>BatchResults.results = (rs @ rs1) @ map (\<lambda>x. fulfilled (f x)) (drop k' items),
             errors = (es @ es1) @ es'\<rparr>)"
      and es': "mset es' = mset (map snd (concat (map (\<lambda>(j, x). pushed_item (int j) (f x))
                                     (enumerate k' (drop k' items)))))"
      by blast
    have unfold: "batchLoop items b f (int k) now rs es
        = batchLoop items b f (int k') (now + t) (rs @ rs1) (es @ es1)"
      by (subst batchLoop.simps)
         (simp only: True sl [unfolded k'] all k' es1_def if_True promise.case of_nat_less_iff)
    have dr: "drop k items = batch @ drop k' items"
      unfolding batch_def k'_def by (rule drop_batch)
    have res: "rs1 @ map (\<lambda>x. fulfilled (f x)) (drop k' items)
        = map (\<lambda>x. fulfilled (f x)) (drop k items)"
      unfolding dr rs1_def by simp
    have en: "enumerate k (drop k items) = enumerate k batch @ enumerate k' (drop k' items)"
    proof -
      have "drop k' items = drop (nat b) (drop k items)"
        unfolding k'_def by (simp add: add.commute)
      then show ?thesis
        using enumerate_take_drop [of k "drop k items" "nat b"]
        unfolding batch_def k'_def by simp
    qed
    have "mset es1 = mset (map snd (concat (map (\<lambda>(j, x). pushed_item (int j) (f x))
                                     (enumerate k batch))))"
      unfolding es1_def by (simp only: mset_pushes_in_order batchPushed_items)
    with es' have errs: "mset (es1 @ es')
        = mset (map snd (concat (map (\<lambda>(j, x). pushed_item (int j) (f x))
                                     (enumerate k (drop k items)))))"
      unfolding en by simp
    have "batchLoop items b f (int k) now rs es
        = Some (Resolves t' \<lparr>BatchResults.results = rs @ map (\<lambda>x. fulfilled (f x)) (drop k items),
                              errors = es @ (es1 @ es')\<rparr>)"
      unfolding unfold rec using res by simp
    with errs show ?thesis by blast
  qed
qed

lemma batchLoop_plain_terminates:
  assumes "1 \<le> b"
  shows "\<exists>y. batchLoop_plain items b f i now rs = Some y"
proof (induction "nat (int (length items) - i)" arbitrary: i now rs rule: less_induct)
  case less
  show ?case
  proof (cases "i < int (length items)")
    case False
    then show ?thesis by (subst batchLoop_plain.simps) simp
  next
    case True
    with assms have "nat (int (length items) - (i + b)) < nat (int (length items) - i)"
      by linarith
    from less [OF this] show ?thesis
      by (subst batchLoop_plain.simps) (simp add: True split: promise.splits)
  qed
qed

lemma batchLoop_plain_never_leaves:
  fixes f :: "'a \<Rightarrow> 'r promise"
  assumes "batchLoop_plain items b f i now rs = Some y"
  shows "b \<le> 0 \<and> i \<le> 0 \<and> items \<noteq> [] \<longrightarrow> y = Pending \<and> Pending \<in> f ` set items"
proof (rule batchLoop_plain.raw_induct
    [where P = "\<lambda>items b f i now rs y. b \<le> 0 \<and> i \<le> 0 \<and> items \<noteq> [] \<longrightarrow> y = Pending \<and> Pending \<in> f ` set items",
     OF _ assms])
  fix loop :: "'a list \<Rightarrow> int \<Rightarrow> ('a \<Rightarrow> 'r promise) \<Rightarrow> int \<Rightarrow> nat \<Rightarrow> 'r option list
     \<Rightarrow> 'r option list promise option"
  fix items b and f :: "'a \<Rightarrow> 'r promise" and i now rs y
  assume IH: "\<And>items b f i now rs y. loop items b f i now rs = Some y \<Longrightarrow>
      b \<le> 0 \<and> i \<le> 0 \<and> items \<noteq> [] \<longrightarrow> y = Pending \<and> Pending \<in> f ` set items"
  assume step: "(if i < int (length items)
      then case Promise_all (map slot (map f (slice items i (i + b)))) of
           Resolves t batchResults \<Rightarrow>
             loop items b f (i + b) (now + t) (rs @ batchResults)
           | Rejects t e \<Rightarrow> Some (Rejects (now + t) e)
           | Pending \<Rightarrow> Some Pending
      else Some (Resolves now rs)) = Some y"
  show "b \<le> 0 \<and> i \<le> 0 \<and> items \<noteq> [] \<longrightarrow> y = Pending \<and> Pending \<in> f ` set items"
  proof
    assume h: "b \<le> 0 \<and> i \<le> 0 \<and> items \<noteq> []"
    then have lt: "i < int (length items)" by (cases items) auto
    show "y = Pending \<and> Pending \<in> f ` set items"
    proof (cases "Promise_all (map slot (map f (slice items i (i + b))))")
      case (Resolves t vs)
      with step lt have "loop items b f (i + b) (now + t) (rs @ vs) = Some y"
        by simp
      from IH [OF this] h show ?thesis by simp
    next
      case (Rejects t e)
      then show ?thesis using Promise_all_slots_not_rejected by blast
    next
      case Pending
      then have "Pending \<in> set (map f (slice items i (i + b)))"
        using Promise_all_slots [of "map f (slice items i (i + b))"] by auto
      then have "Pending \<in> f ` set items" using set_slice [of items i "i + b"] by auto
      with Pending step lt show ?thesis by simp
    qed
  qed
qed

lemma batchLoop_plain_runs_forever:
  assumes "b \<le> 0" "items \<noteq> []" "\<forall>x \<in> set items. f x \<noteq> Pending"
  shows "batchLoop_plain items b f 0 now rs = None"
proof (rule ccontr)
  assume "batchLoop_plain items b f 0 now rs \<noteq> None"
  then obtain y where "batchLoop_plain items b f 0 now rs = Some y" by auto
  from batchLoop_plain_never_leaves [OF this] assms show False by auto
qed


lemma batchLoop_plain_results:
  assumes "1 \<le> b" "\<forall>x \<in> set items. f x \<noteq> Pending"
  shows "\<exists>t. batchLoop_plain items b f (int k) now rs
           = Some (Resolves t (rs @ map (\<lambda>x. fulfilled (f x)) (drop k items)))"
proof (induction "length items - k" arbitrary: k now rs rule: less_induct)
  case less
  show ?case
  proof (cases "k < length items")
    case False
    then show ?thesis by (subst batchLoop_plain.simps) simp
  next
    case True
    define batch where "batch = take (nat b) (drop k items)"
    define k' where "k' = k + nat b"
    define rs1 where "rs1 = map fulfilled (map f batch)"
    have sl: "slice items (int k) (int k + b) = batch"
      using slice_batch [of "int k" b items] assms(1) by (simp add: batch_def)
    have "set batch \<subseteq> set items"
      unfolding batch_def by (meson set_take_subset set_drop_subset subset_trans)
    with assms(2) have "Pending \<notin> set (map f batch)"
      by (metis imageE list.set_map subsetD)
    then obtain t where all: "Promise_all (map slot (map f batch)) = Resolves t rs1"
      using Promise_all_slots [of "map f batch"] unfolding rs1_def by auto
    have k': "int k + b = int k'" using assms(1) by (simp add: k'_def)
    have "length items - k' < length items - k"
      using True assms(1) unfolding k'_def by linarith
    from less [OF this, of "now + t" "rs @ rs1"]
    obtain t' where rec: "batchLoop_plain items b f (int k') (now + t) (rs @ rs1)
        = Some (Resolves t' ((rs @ rs1) @ map (\<lambda>x. fulfilled (f x)) (drop k' items)))"
      by blast
    have unfold: "batchLoop_plain items b f (int k) now rs
        = batchLoop_plain items b f (int k') (now + t) (rs @ rs1)"
      by (subst batchLoop_plain.simps)
         (simp only: True sl [unfolded k'] all k' if_True promise.case of_nat_less_iff)
    have dr: "drop k items = batch @ drop k' items"
      unfolding batch_def k'_def by (rule drop_batch)
    have res: "rs1 @ map (\<lambda>x. fulfilled (f x)) (drop k' items)
        = map (\<lambda>x. fulfilled (f x)) (drop k items)"
      unfolding dr rs1_def by simp
    show ?thesis unfolding unfold rec using res by simp
  qed
qed

lemma length_pushed_items:
  "length (concat (map (\<lambda>(j, x). pushed_item (int j) (f x)) (enumerate n xs)))
     = length (filter (\<lambda>x. rejected (f x)) xs)"
proof (induction xs arbitrary: n)
  case Nil
  then show ?case by simp
next
  case (Cons x xs)
  then show ?case by (cases "f x") simp_all
qed

lemma show_int_nat [simp]: "show_int (int n) = show_nat n"
  by (simp add: show_int_def)

lemma pushed_item_member:
  assumes "i < length xs" "f (xs ! i) = Rejects s e"
  shows "''Batch item '' @ show_nat i @ '': '' @ reason_text e
      \<in> set (map snd (concat (map (\<lambda>(j, x). pushed_item (int j) (f x)) (enumerate 0 xs))))"
proof -
  from assms(1) have "(i, xs ! i) \<in> set (enumerate 0 xs)"
    by (simp add: in_set_enumerate_eq)
  then have "set (pushed_item (int i) (f (xs ! i)))
      \<subseteq> set (concat (map (\<lambda>(j, x). pushed_item (int j) (f x)) (enumerate 0 xs)))"
    by force
  then show ?thesis using assms(2) by force
qed

text \<open>
  C7. For a batch size of at least 1 and a processor whose calls all settle,
  \<open>batchProcess\<close> returns, and its results are the outcomes of the calls in the order of
  the items: the value where the call was fulfilled, \<open>null\<close> where it was rejected. Every
  rejection is on the error list, as \<open>Batch item <index>: <message>\<close>, and the list holds
  as many messages as there were rejections.
\<close>

theorem batchProcess_order:
  assumes "1 \<le> b" and "\<forall>x \<in> set items. f x \<noteq> Pending"
  shows "\<exists>t r. batchProcess items b f = Some (Resolves t r) \<and>
           BatchResults.results r = map (\<lambda>x. fulfilled (f x)) items \<and>
           length (BatchResults.errors r) = length (filter (\<lambda>x. rejected (f x)) items) \<and>
           (\<forall>i s e. i < length items \<and> f (items ! i) = Rejects s e \<longrightarrow>
              ''Batch item '' @ show_nat i @ '': '' @ reason_text e
                \<in> set (BatchResults.errors r))"
proof -
  let ?pushed = "map snd (concat (map (\<lambda>(j, x). pushed_item (int j) (f x)) (enumerate 0 items)))"
  from batchLoop_results [OF assms, of 0 0 "[]" "[]"]
  obtain t es' where run: "batchProcess items b f
        = Some (Resolves t \<lparr>BatchResults.results = map (\<lambda>x. fulfilled (f x)) items, errors = es'\<rparr>)"
    and es': "mset es' = mset ?pushed"
    by (auto simp: batchProcess_def)
  from es' have "size (mset es') = size (mset ?pushed)" by simp
  then have len: "length es' = length (filter (\<lambda>x. rejected (f x)) items)"
    by (simp add: length_pushed_items)
  from es' have "set es' = set ?pushed" by (rule mset_eq_setD)
  then have mem: "''Batch item '' @ show_nat i @ '': '' @ reason_text e \<in> set es'"
    if "i < length items" "f (items ! i) = Rejects s e" for i s e
    using pushed_item_member [of i items f s e] that by simp
  show ?thesis unfolding run using len mem by simp
qed

text \<open>
  C10. With a batch size of at least 1 the loop of \<open>batchProcess\<close> ends, whatever the items
  and the processor, and when every call of the processor settles the call returns its
  result. With a batch size of 0 or below and at least one item the call never returns;
  when every call of the processor settles, that is because the loop runs forever. Both
  forms of \<open>batchProcess\<close> in the repository behave so.
\<close>

theorem batchProcess_termination:
  "(1 \<le> b \<longrightarrow> batchProcess items b f \<noteq> None \<and> batchProcess_plain items b f \<noteq> None) \<and>
   (1 \<le> b \<and> (\<forall>x \<in> set items. f x \<noteq> Pending) \<longrightarrow>
      (\<exists>t r. batchProcess items b f = Some (Resolves t r)) \<and>
      (\<exists>t r. batchProcess_plain items b f = Some (Resolves t r))) \<and>
   (b \<le> 0 \<and> items \<noteq> [] \<longrightarrow>
      (\<forall>t r. batchProcess items b f \<noteq> Some (Resolves t r)) \<and>
      (\<forall>t r. batchProcess_plain items b f \<noteq> Some (Resolves t r))) \<and>
   (b \<le> 0 \<and> items \<noteq> [] \<and> (\<forall>x \<in> set items. f x \<noteq> Pending) \<longrightarrow>
      batchProcess items b f = None \<and> batchProcess_plain items b f = None)"
proof (intro conjI impI allI)
  assume "1 \<le> b"
  then show "batchProcess items b f \<noteq> None" "batchProcess_plain items b f \<noteq> None"
    using batchLoop_terminates [of b items f 0 0 "[]" "[]"]
      batchLoop_plain_terminates [of b items f 0 0 "[]"]
    by (auto simp: batchProcess_def batchProcess_plain_def)
next
  assume h: "1 \<le> b \<and> (\<forall>x \<in> set items. f x \<noteq> Pending)"
  then have b: "1 \<le> b" and settle: "\<forall>x \<in> set items. f x \<noteq> Pending" by simp_all
  from batchLoop_results [OF b settle, of 0 0 "[]" "[]"]
  show "\<exists>t r. batchProcess items b f = Some (Resolves t r)"
    unfolding batchProcess_def by auto
  from batchLoop_plain_results [OF b settle, of 0 0 "[]"]
  show "\<exists>t r. batchProcess_plain items b f = Some (Resolves t r)"
    unfolding batchProcess_plain_def by auto
next
  fix t r assume "b \<le> 0 \<and> items \<noteq> []"
  then show "batchProcess items b f \<noteq> Some (Resolves t r)"
    using batchLoop_never_leaves [of items b f 0 0 "[]" "[]" "Resolves t r"]
    by (auto simp: batchProcess_def)
next
  fix t r assume "b \<le> 0 \<and> items \<noteq> []"
  then show "batchProcess_plain items b f \<noteq> Some (Resolves t r)"
    using batchLoop_plain_never_leaves [of items b f 0 0 "[]" "Resolves t r"]
    by (auto simp: batchProcess_plain_def)
next
  assume "b \<le> 0 \<and> items \<noteq> [] \<and> (\<forall>x \<in> set items. f x \<noteq> Pending)"
  then show "batchProcess items b f = None" "batchProcess_plain items b f = None"
    using batchLoop_runs_forever [of b items f 0 "[]" "[]"]
      batchLoop_plain_runs_forever [of b items f 0 "[]"]
    by (auto simp: batchProcess_def batchProcess_plain_def)
qed

lemma batch_example:
  "batchProcess [1, 2, 3, 4, 5] 2 square_but_three
   = Some (Resolves 30 \<lparr>BatchResults.results = [Some 1, Some 4, None, Some 16, Some 25],
                          errors = [''Batch item 2: boom'']\<rparr>)"
  by (simp add: batchProcess_def batchLoop.simps slice_def slice_index_def slot_def
      pushes_in_order_def batchPushed_def enumerate_eq_zip show_int_def show_nat.simps
      square_but_three_def)

theorem batchProcess_order_witness:
  "(1::int) \<le> 2 \<and> square_but_three 1 \<noteq> Pending \<and> square_but_three 3 \<noteq> Pending \<and>
   batchProcess [1, 2, 3, 4, 5] 2 square_but_three
   = Some (Resolves 30 \<lparr>BatchResults.results = [Some 1, Some 4, None, Some 16, Some 25],
                          errors = [''Batch item 2: boom'']\<rparr>) \<and>
   map (\<lambda>x. fulfilled (square_but_three x)) [1, 2, 3, 4, 5]
     = [Some 1, Some 4, None, Some 16, Some 25]"
proof -
  have b: "(1::int) \<le> 2" by simp
  have settle: "\<forall>x \<in> set [1, 2, 3, 4, 5]. square_but_three x \<noteq> Pending"
    by (simp add: square_but_three_def)
  show ?thesis
    using batchProcess_order [OF b settle] batch_example
    by (simp add: square_but_three_def)
qed

lemma batch_plain_example:
  "batchProcess_plain [1, 2, 3, 4, 5] 2 square_but_three
   = Some (Resolves 30 [Some 1, Some 4, None, Some 16, Some 25])"
  by (simp add: batchProcess_plain_def batchLoop_plain.simps slice_def slice_index_def slot_def
      square_but_three_def)

theorem batchProcess_termination_witness:
  "(1::int) \<le> 2 \<and> square_but_three 1 \<noteq> Pending \<and> square_but_three 3 \<noteq> Pending \<and>
   batchProcess [1, 2, 3, 4, 5] 2 square_but_three
     = Some (Resolves 30 \<lparr>BatchResults.results = [Some 1, Some 4, None, Some 16, Some 25],
                            errors = [''Batch item 2: boom'']\<rparr>) \<and>
   batchProcess_plain [1, 2, 3, 4, 5] 2 square_but_three
     = Some (Resolves 30 [Some 1, Some 4, None, Some 16, Some 25]) \<and>
   (0::int) \<le> 0 \<and> [1, 2, 3, 4, 5 :: nat] \<noteq> [] \<and>
   batchProcess [1, 2, 3, 4, 5] 0 square_but_three = None \<and>
   batchProcess_plain [1, 2, 3, 4, 5] 0 square_but_three = None \<and>
   batchProcess [1, 2, 3, 4, 5] (- 1) square_but_three = None \<and>
   batchProcess_plain [1, 2, 3, 4, 5] (- 1) square_but_three = None"
proof -
  have settle: "\<forall>x \<in> set [1, 2, 3, 4, 5]. square_but_three x \<noteq> Pending"
    by (simp add: square_but_three_def)
  have zero: "batchProcess [1, 2, 3, 4, 5] 0 square_but_three = None"
      "batchProcess_plain [1, 2, 3, 4, 5] 0 square_but_three = None"
    using batchProcess_termination [of 0 "[1, 2, 3, 4, 5]" square_but_three] settle by simp_all
  have minus: "batchProcess [1, 2, 3, 4, 5] (- 1) square_but_three = None"
      "batchProcess_plain [1, 2, 3, 4, 5] (- 1) square_but_three = None"
    using batchProcess_termination [of "- 1" "[1, 2, 3, 4, 5]" square_but_three] settle
    by simp_all
  have returns: "\<exists>t r. batchProcess [1, 2, 3, 4, 5] 2 square_but_three = Some (Resolves t r)"
    using batchProcess_termination [of 2 "[1, 2, 3, 4, 5]" square_but_three] settle by simp
  show ?thesis
    using zero minus returns batch_example batch_plain_example
    by (simp add: square_but_three_def)
qed

section \<open>Properties of the mass-collection workflow\<close>






section \<open>Properties of the formatters\<close>

lemma join_first_nonempty: "x \<noteq> [] \<Longrightarrow> join sep (x # xs) \<noteq> []"
  by (cases xs) simp_all

lemma collect_Inr_iff:
  "(\<exists>ys. collect xs = Inr ys) \<longleftrightarrow> (\<forall>x \<in> set xs. \<exists>y. x = Inr y)"
proof (induction xs)
  case Nil
  then show ?case by simp
next
  case (Cons x xs)
  show ?case
  proof (cases x)
    case (Inl e)
    then show ?thesis by auto
  next
    case (Inr y)
    with Cons show ?thesis by (auto split: sum.splits)
  qed
qed

lemma falsy_prints: "\<not> js_truthy v \<Longrightarrow> \<exists>s. js_String num v = Inr s"
  by (cases v) simp_all

lemma cellText_Inr_iff:
  "(\<exists>s. cellText num item c = Inr s) \<longleftrightarrow> (\<exists>s. js_String num (property item c) = Inr s)"
proof (cases "property item c = JUndefined \<or> property item c = JNull")
  case True
  then have "cellText num item c = Inr (slice ''-'' 0 100)"
    by (simp add: cellText_def)
  moreover from True have "\<exists>s. js_String num (property item c) = Inr s" by auto
  ultimately show ?thesis by simp
next
  case False
  then have "cellText num item c
      = (case js_String num (property item c) of Inl e \<Rightarrow> Inl e | Inr s \<Rightarrow> Inr (slice s 0 100))"
    by (simp add: cellText_def)
  then show ?thesis by (cases "js_String num (property item c)") simp_all
qed

lemma linkText_Inr_iff:
  "(\<exists>s. linkText num item = Inr s) \<longleftrightarrow> (\<exists>s. js_String num (property item ''url'') = Inr s)"
proof (cases "js_truthy (property item ''url'')")
  case True
  then have "linkText num item
      = (case js_String num (property item ''url'') of
           Inl e \<Rightarrow> Inl e | Inr u \<Rightarrow> Inr (''[link]('' @ u @ '')''))"
    by (simp add: linkText_def)
  then show ?thesis by (cases "js_String num (property item ''url'')") simp_all
next
  case False
  then have "linkText num item = Inr ''-''" by (simp add: linkText_def)
  with falsy_prints [OF False, of num] show ?thesis by simp
qed

lemma comparisonRow_Inr_iff:
  "(\<exists>s. comparisonRow num cols p = Inr s) \<longleftrightarrow>
     (\<forall>c \<in> insert ''url'' (set cols). \<exists>s. js_String num (property (snd p) c) = Inr s)"
proof -
  have cells: "(\<exists>vs. collect (map (cellText num (snd p)) cols) = Inr vs) \<longleftrightarrow>
      (\<forall>c \<in> set cols. \<exists>s. js_String num (property (snd p) c) = Inr s)"
    by (simp add: collect_Inr_iff cellText_Inr_iff)
  have "(\<exists>s. comparisonRow num cols p = Inr s) \<longleftrightarrow>
      (\<exists>vs. collect (map (cellText num (snd p)) cols) = Inr vs) \<and>
      (\<exists>s. linkText num (snd p) = Inr s)"
    unfolding comparisonRow_def
    by (cases "collect (map (cellText num (snd p)) cols)"; cases "linkText num (snd p)") simp_all
  then show ?thesis
    unfolding cells linkText_Inr_iff by auto
qed

lemma not_Inl_iff: "(\<forall>e. x \<noteq> Inl e) \<longleftrightarrow> (\<exists>s. x = Inr s)"
  by (cases x) auto

lemma formatComparison_Inr_iff:
  "(\<exists>out. formatComparison num items criteria = Inr out) \<longleftrightarrow>
     (\<forall>item \<in> set items. \<forall>c \<in> insert ''url'' (set (comparisonColumns items criteria)).
        \<forall>e. js_String num (property item c) \<noteq> Inl e)"
proof (cases "items = []")
  case True
  then show ?thesis by (simp add: formatComparison_def)
next
  case False
  let ?cols = "comparisonColumns items criteria"
  have "(\<exists>rows. collect (map (comparisonRow num ?cols) (enumerate 0 items)) = Inr rows) \<longleftrightarrow>
      (\<forall>p \<in> set (enumerate 0 items). \<forall>c \<in> insert ''url'' (set ?cols).
         \<exists>s. js_String num (property (snd p) c) = Inr s)"
    by (simp add: collect_Inr_iff comparisonRow_Inr_iff)
  also have "\<dots> \<longleftrightarrow> (\<forall>item \<in> set items. \<forall>c \<in> insert ''url'' (set ?cols).
         \<exists>s. js_String num (property item c) = Inr s)"
  proof -
    have "set (map snd (enumerate 0 items)) = set items" by simp
    then have "snd ` set (enumerate 0 items) = set items" by (simp only: set_map)
    then show ?thesis by force
  qed
  finally have rows: "(\<exists>rows. collect (map (comparisonRow num ?cols) (enumerate 0 items)) = Inr rows) \<longleftrightarrow>
      (\<forall>item \<in> set items. \<forall>c \<in> insert ''url'' (set ?cols).
         \<exists>s. js_String num (property item c) = Inr s)" .
  have "(\<exists>out. formatComparison num items criteria = Inr out) \<longleftrightarrow>
      (\<exists>rows. collect (map (comparisonRow num ?cols) (enumerate 0 items)) = Inr rows)"
    using False unfolding formatComparison_def Let_def
    by (cases "collect (map (comparisonRow num ?cols) (enumerate 0 items))") simp_all
  with rows show ?thesis by (simp add: not_Inl_iff)
qed

lemma formatComparison_nonempty:
  assumes "formatComparison num items criteria = Inr out"
  shows "out \<noteq> []"
proof (cases "items = []")
  case True
  with assms show ?thesis by (auto simp: formatComparison_def)
next
  case False
  show ?thesis
  proof (cases "collect (map (comparisonRow num (comparisonColumns items criteria))
      (enumerate 0 items))")
    case (Inl e)
    with assms False show ?thesis by (simp add: formatComparison_def Let_def)
  next
    case (Inr rows)
    with assms False have "out = join newline
        ((''## Comparison ('' @ show_nat (length items) @ '' offers)'' @ newline) #
         [''| # | '' @ join '' | '' (comparisonColumns items criteria) @ '' | Source |'',
          ''|---|'' @ join ''|'' (map (\<lambda>c. ''---'') (comparisonColumns items criteria)) @
          ''|---|''] @ rows)"
      by (simp add: formatComparison_def Let_def)
    then show ?thesis by (simp only: join_first_nonempty) (simp add: join_first_nonempty)
  qed
qed

text \<open>
  C8, as the code has it. \<open>formatSearchResults([])\<close> is \<open>No results found.\<close> and
  \<open>formatComparison([], criteria)\<close> is \<open>No items to compare.\<close>. \<open>formatSearchResults\<close>,
  \<open>formatSummary\<close> and \<open>formatServiceStatus\<close> are total and never return the empty string.
  \<open>formatErrors\<close> returns the empty string for the empty list, and a warning block for
  any other. \<open>formatComparison\<close> returns a text, never an empty one, exactly when \<open>String\<close>
  succeeds on every value it has to print: the values of the columns and of \<open>url\<close> in
  every record.
\<close>

theorem formatters_on_empty_input:
  "formatSearchResults [] options = ''No results found.'' \<and>
   formatComparison num [] criteria = Inr ''No items to compare.'' \<and>
   formatSearchResults rs options \<noteq> [] \<and>
   formatSummary body srcs \<noteq> [] \<and>
   formatServiceStatus services \<noteq> [] \<and>
   formatErrors [] = [] \<and>
   (errs \<noteq> [] \<longrightarrow> formatErrors errs \<noteq> []) \<and>
   (\<forall>out. formatComparison num items criteria = Inr out \<longrightarrow> out \<noteq> []) \<and>
   ((\<exists>out. formatComparison num items criteria = Inr out) \<longleftrightarrow>
      (\<forall>item \<in> set items. \<forall>c \<in> insert ''url'' (set (comparisonColumns items criteria)).
         \<forall>e. js_String num (property item c) \<noteq> Inl e))"
proof (intro conjI impI allI)
  show "formatSearchResults [] options = ''No results found.''"
    by (simp add: formatSearchResults_def slice_def Let_def)
  show "formatComparison num [] criteria = Inr ''No items to compare.''"
    by (simp add: formatComparison_def)
  show "formatSearchResults rs options \<noteq> []"
    unfolding formatSearchResults_def Let_def
    by (simp add: join_first_nonempty)
  show "formatSummary body srcs \<noteq> []"
    unfolding formatSummary_def by (simp add: join_first_nonempty)
  show "formatServiceStatus services \<noteq> []"
    by (simp add: formatServiceStatus_def)
  show "formatErrors [] = []"
    by (simp add: formatErrors_def)
  show "formatErrors errs \<noteq> []" if "errs \<noteq> []"
    using that unfolding formatErrors_def by (simp add: join_first_nonempty newline_def)
  show "out \<noteq> []" if "formatComparison num items criteria = Inr out" for out
    using that by (rule formatComparison_nonempty)
  show "(\<exists>out. formatComparison num items criteria = Inr out) \<longleftrightarrow>
      (\<forall>item \<in> set items. \<forall>c \<in> insert ''url'' (set (comparisonColumns items criteria)).
         \<forall>e. js_String num (property item c) \<noteq> Inl e)"
    by (rule formatComparison_Inr_iff)
qed

lemma unprintable_example:
  "formatComparison whole_number_text [unprintable_offer] [] = Inl cannot_convert"
  by (simp add: formatComparison_def comparisonColumns_def comparisonRow_def cellText_def
      property_def unprintable_offer_def)

text \<open>
  C8 as stated fails twice: \<open>formatErrors\<close> returns the empty string on the empty list,
  and \<open>formatComparison\<close> throws on a record that holds an object with a property
  \<open>toString\<close>.
\<close>

theorem formatErrors_empty_string:
  "formatErrors [] = '''' \<and>
   formatComparison whole_number_text [unprintable_offer] [] = Inl cannot_convert"
  by (simp add: formatErrors_def formatComparison_def comparisonColumns_def comparisonRow_def cellText_def property_def unprintable_offer_def)

lemma formatErrors_example:
  "formatErrors [''[Exa] boom''] =
     newline @ ''---'' @ newline @ ''**WARNING: 1 service(s) failed:**'' @ newline @ newline @
     ''- [Exa] boom'' @ newline"
  by (simp add: formatErrors_def show_nat.simps)

lemma plain_offer_example:
  "formatComparison whole_number_text [plain_offer] [''name'', ''price'', ''constructor'', ''stock'']
   = Inr (''## Comparison (1 offers)'' @ newline @ newline @
          ''| # | name | price | constructor | stock | Source |'' @ newline @
          ''|---|---|---|---|---|---|'' @ newline @
          ''| 1 | X | 5 | function Object() { [native code] } | - | [link](https://a.com/x) |'')"
  by (simp add: formatComparison_def comparisonColumns_def comparisonRow_def cellText_def
      linkText_def property_def plain_offer_def Object_prototype_def native_function_def
      whole_number_text_def show_int_def show_nat.simps slice_def slice_index_def)

theorem formatters_on_empty_input_witness:
  "[''[Exa] boom''] \<noteq> [] \<and> formatErrors [''[Exa] boom''] \<noteq> [] \<and>
   formatErrors [''[Exa] boom''] =
     newline @ ''---'' @ newline @ ''**WARNING: 1 service(s) failed:**'' @ newline @ newline @
     ''- [Exa] boom'' @ newline \<and>
   formatComparison whole_number_text [plain_offer] [''name'', ''price'', ''constructor'', ''stock'']
   = Inr (''## Comparison (1 offers)'' @ newline @ newline @
          ''| # | name | price | constructor | stock | Source |'' @ newline @
          ''|---|---|---|---|---|---|'' @ newline @
          ''| 1 | X | 5 | function Object() { [native code] } | - | [link](https://a.com/x) |'') \<and>
   js_String whole_number_text (property unprintable_offer ''price'') = Inl cannot_convert \<and>
   (\<nexists>out. formatComparison whole_number_text [unprintable_offer] [] = Inr out)"
proof -
  note T = formatters_on_empty_input [where errs = "[''[Exa] boom'']"
      and num = whole_number_text and items = "[unprintable_offer]" and criteria = "[]"]
  have errs: "[''[Exa] boom''] \<noteq> ([] :: string list)" by simp
  from T errs have block: "formatErrors [''[Exa] boom''] \<noteq> []" by blast
  have price: "js_String whole_number_text (property unprintable_offer ''price'') = Inl cannot_convert"
    by (simp add: property_def unprintable_offer_def)
  have col: "''price'' \<in> insert ''url'' (set (comparisonColumns [unprintable_offer] []))"
    by (simp add: comparisonColumns_def unprintable_offer_def)
  from T have "(\<exists>out. formatComparison whole_number_text [unprintable_offer] [] = Inr out) \<longleftrightarrow>
      (\<forall>item \<in> set [unprintable_offer].
         \<forall>c \<in> insert ''url'' (set (comparisonColumns [unprintable_offer] [])).
           \<forall>e. js_String whole_number_text (property item c) \<noteq> Inl e)"
    by blast
  with price col have throws: "\<nexists>out. formatComparison whole_number_text [unprintable_offer] [] = Inr out"
    by auto
  show ?thesis
    by (intro conjI) (rule errs, rule block, rule formatErrors_example, rule plain_offer_example,
        rule price, rule throws)
qed


end
